theory Spec2Isabelle
  imports Main "HOL-Library.Word"
begin

unbundle bit_operations_syntax

section \<open>Data model (crypto.go, lines 20-43)\<close>

text \<open>
  Go strings are byte sequences: \<open>string\<close>. Go's \<open>int\<close> is taken as the 64-bit signed
  integer of the usual platforms: a \<open>64 word\<close>, read with \<open>sint\<close>. A byte of a digest is
  an \<open>8 word\<close>.
\<close>

type_synonym byte = "8 word"
type_synonym goint = "64 word"

record Transaction =
  ID :: string
  Data :: string

record Block =
  PrevHash :: string
  Transactions :: "Transaction list"
  Nonce :: goint
  Hash :: string
  PrevCID :: string
  BlockNumber :: goint

text \<open>\<open>target = big.NewInt(1).Lsh(big.NewInt(1), 245)\<close>\<close>

definition target :: nat where
  "target = push_bit 245 1"

section \<open>Library functions the program calls\<close>

text \<open>\<open>hex.EncodeToString\<close>: two digits of \<open>hextable\<close> per byte, high nibble first.\<close>

definition hextable :: string where
  "hextable = ''0123456789abcdef''"

definition EncodeToString :: "byte list \<Rightarrow> string" where
  "EncodeToString bs =
     concat (map (\<lambda>v. [hextable ! unat (drop_bit 4 v), hextable ! unat (v AND 15)]) bs)"

text \<open>\<open>new(big.Int).SetBytes\<close>: the bytes as a big-endian unsigned integer.\<close>

definition SetBytes :: "byte list \<Rightarrow> nat" where
  "SetBytes bs = foldl (\<lambda>acc b. acc * 256 + unat b) 0 bs"

text \<open>The verb \<open>%d\<close> of \<open>fmt\<close> on an \<open>int\<close>: signed decimal.\<close>

fun decimal :: "nat \<Rightarrow> string" where
  "decimal n =
     (if n < 10 then [''0123456789'' ! n]
      else decimal (n div 10) @ [''0123456789'' ! (n mod 10)])"

declare decimal.simps [simp del]

definition fmt_d :: "goint \<Rightarrow> string" where
  "fmt_d i = (if sint i < 0 then CHR ''-'' # decimal (nat (- sint i)) else decimal (nat (sint i)))"

text \<open>
  The verb \<open>%v\<close>: a struct prints as its fields between braces, separated by spaces;
  a slice as its elements between brackets, separated by spaces; a string as it is.
\<close>

fun join :: "string \<Rightarrow> string list \<Rightarrow> string" where
  "join sep [] = []"
| "join sep [s] = s"
| "join sep (s # t # ss) = s @ sep @ join sep (t # ss)"

definition fmt_v_Transaction :: "Transaction \<Rightarrow> string" where
  "fmt_v_Transaction tx = ''{'' @ ID tx @ '' '' @ Data tx @ ''}''"

definition fmt_v_Transactions :: "Transaction list \<Rightarrow> string" where
  "fmt_v_Transactions txs = ''['' @ join '' '' (map fmt_v_Transaction txs) @ '']''"

definition fmt_v_Block :: "Block \<Rightarrow> string" where
  "fmt_v_Block b =
     ''{'' @ PrevHash b @ '' '' @ fmt_v_Transactions (Transactions b) @ '' '' @ fmt_d (Nonce b)
       @ '' '' @ Hash b @ '' '' @ PrevCID b @ '' '' @ fmt_d (BlockNumber b) @ ''}''"

section \<open>External collaborators\<close>

text \<open>
  What the program reaches through libraries and the network is a parameter of the model:
  \<^item> \<open>Sum256\<close>: \<open>sha256.Sum256\<close> on the bytes of a string;
  \<^item> \<open>Unmarshal\<close>: the decoder that the receiver calls, \<open>json.Unmarshal\<close> into a fresh
    \<open>Block\<close>, \<open>None\<close> when it returns an error (validation is stated for any decoder;
    \<open>json_Unmarshal\<close> below models the one of the library);
  \<^item> \<open>stopReady k\<close>: whether the k-th poll of the channel \<open>stopMining\<close> finds it ready;
  \<^item> \<open>ipfsAdd k data\<close>: the k-th call of \<open>ipfsShell.Add\<close>, \<open>None\<close> when it fails;
  \<^item> \<open>ipfsCat cid\<close>: the content \<open>downloadFromIPFS\<close> stores, \<open>None\<close> when it fails;
  \<^item> \<open>runScript script data\<close>: the combined output of the Python run, \<open>None\<close> on error;
  \<^item> \<open>connectedMiners\<close>: the peer list.
\<close>

record ext =
  Sum256 :: "string \<Rightarrow> byte list"
  Unmarshal :: "string \<Rightarrow> Block option"
  stopReady :: "nat \<Rightarrow> bool"
  ipfsAdd :: "nat \<Rightarrow> string \<Rightarrow> string option"
  ipfsCat :: "string \<Rightarrow> string option"
  runScript :: "string \<Rightarrow> string \<Rightarrow> string option"
  connectedMiners :: "string list"

section \<open>Process state\<close>

text \<open>
  \<open>transactionBuffer\<close> holds the transactions the channel delivers, oldest first;
  \<open>sent\<close> logs each call of \<open>sendBlockToMiner\<close> (peer, block), \<open>newBlock\<close> each block
  put on the channel \<open>newBlock\<close>; \<open>polls\<close> and \<open>adds\<close> count the polls of \<open>stopMining\<close>
  and the calls of \<open>ipfsShell.Add\<close>; \<open>blockValidations\<close> is the vote map and \<open>accepted\<close>
  logs each hash for which the quorum message is printed.
\<close>

record node =
  transactionBuffer :: "Transaction list"
  minedBlocks :: goint
  blockValidations :: "string \<rightharpoonup> goint"
  sent :: "(string \<times> Block) list"
  newBlock :: "Block list"
  accepted :: "string list"
  polls :: nat
  adds :: nat

section \<open>Mining (crypto.go, lines 144-245)\<close>

text \<open>
  \<open>uploadBlockToIPFS\<close>: the block printed with \<open>%v\<close> is handed to \<open>ipfsShell.Add\<close>.
\<close>

definition uploadBlockToIPFS :: "ext \<Rightarrow> Block \<Rightarrow> node \<Rightarrow> string option \<times> node" where
  "uploadBlockToIPFS x block st =
     (ipfsAdd x (adds st) (fmt_v_Block block), st\<lparr>adds := Suc (adds st)\<rparr>)"

text \<open>
  \<open>sendBlockToMiner\<close>: the block is serialised and written to the peer. A failed dial or
  write only prints a message, so the model records the call.
\<close>

definition sendBlockToMiner :: "string \<Rightarrow> Block \<Rightarrow> node \<Rightarrow> node" where
  "sendBlockToMiner miner block st = st\<lparr>sent := sent st @ [(miner, block)]\<rparr>"

text \<open>\<open>blockData := fmt.Sprintf("%s:%v:%d", prevHash, transactions, nonce)\<close>\<close>

definition blockData :: "string \<Rightarrow> Transaction list \<Rightarrow> goint \<Rightarrow> string" where
  "blockData prevHash transactions nonce =
     prevHash @ '':'' @ fmt_v_Transactions transactions @ '':'' @ fmt_d nonce"

text \<open>
  How a run of \<open>startMining\<close> ends: \<open>Stopped\<close> when a poll of \<open>stopMining\<close> succeeds,
  \<open>Blocked\<close> when the goroutine waits for a transaction that never arrives, \<open>Emitted b\<close>
  when \<open>b\<close> was sent to the peers and put on \<open>newBlock\<close>, after which the function returns.
\<close>

datatype outcome = Stopped | Blocked | Emitted Block

datatype step = Continue goint | Return outcome

text \<open>
  One iteration of the proof-of-work loop (lines 164-205). The \<open>select\<close> polls
  \<open>stopMining\<close> first; \<open>continue\<close> after a failed upload starts the next iteration
  without \<open>nonce++\<close>.
\<close>

definition pow_iter :: "ext \<Rightarrow> string \<Rightarrow> string \<Rightarrow> Transaction list \<Rightarrow> goint \<Rightarrow> node \<Rightarrow> step \<times> node" where
  "pow_iter x prevHash prevCID transactions nonce st =
     (let st1 = st\<lparr>polls := Suc (polls st)\<rparr> in
      if stopReady x (polls st) then (Return Stopped, st1)
      else
        let hash = Sum256 x (blockData prevHash transactions nonce) in
        if SetBytes hash < target then
          let block = \<lparr>PrevHash = prevHash, Transactions = transactions, Nonce = nonce,
                       Hash = EncodeToString hash, PrevCID = prevCID,
                       BlockNumber = minedBlocks st1\<rparr>;
              st2 = st1\<lparr>minedBlocks := minedBlocks st1 + 1\<rparr>
          in case uploadBlockToIPFS x block st2 of
               (None, st3) \<Rightarrow> (Continue nonce, st3)
             | (Some blockCID, st3) \<Rightarrow>
                 let block' = block\<lparr>PrevCID := blockCID\<rparr>;
                     st4 = foldl (\<lambda>s miner. sendBlockToMiner miner block' s) st3 (connectedMiners x);
                     st5 = st4\<lparr>newBlock := newBlock st4 @ [block']\<rparr>
                 in (Return (Emitted block'), st5)
        else (Continue (nonce + 1), st1))"

text \<open>
  The loop itself has no bound: \<open>fuel\<close> counts the iterations allowed, and \<open>None\<close> says
  that they did not suffice.
\<close>

fun pow_loop :: "nat \<Rightarrow> ext \<Rightarrow> string \<Rightarrow> string \<Rightarrow> Transaction list \<Rightarrow> goint \<Rightarrow> node \<Rightarrow> (outcome \<times> node) option" where
  "pow_loop 0 x prevHash prevCID transactions nonce st = None"
| "pow_loop (Suc fuel) x prevHash prevCID transactions nonce st =
     (case pow_iter x prevHash prevCID transactions nonce st of
        (Return r, st') \<Rightarrow> Some (r, st')
      | (Continue nonce', st') \<Rightarrow> pow_loop fuel x prevHash prevCID transactions nonce' st')"

text \<open>
  \<open>startMining\<close> (lines 145-208). The outer \<open>select\<close> polls \<open>stopMining\<close>; then three
  receives from \<open>transactionBuffer\<close>, each blocking until a transaction is there; then the
  proof-of-work loop from nonce 0. The inner loop is left only by \<open>return\<close>, so the outer
  \<open>for\<close> never runs a second time.
\<close>

definition startMining :: "nat \<Rightarrow> ext \<Rightarrow> string \<Rightarrow> string \<Rightarrow> node \<Rightarrow> (outcome \<times> node) option" where
  "startMining fuel x prevHash prevCID st =
     (let st1 = st\<lparr>polls := Suc (polls st)\<rparr> in
      if stopReady x (polls st) then Some (Stopped, st1)
      else if length (transactionBuffer st1) < 3
        then Some (Blocked, st1\<lparr>transactionBuffer := []\<rparr>)
      else
        let transactions = take 3 (transactionBuffer st1);
            st2 = st1\<lparr>transactionBuffer := drop 3 (transactionBuffer st1)\<rparr>
        in pow_loop fuel x prevHash prevCID transactions 0 st2)"

section \<open>Transaction intake (crypto.go, lines 98-139 and 318-321)\<close>

definition generateTransactionID :: "ext \<Rightarrow> string \<Rightarrow> string" where
  "generateTransactionID x data = EncodeToString (Sum256 x data)"

text \<open>\<open>strings.Split\<close> with a one-byte separator: the empty string gives one empty part.\<close>

fun Split :: "char \<Rightarrow> string \<Rightarrow> string list" where
  "Split sep [] = [[]]"
| "Split sep (c # cs) =
     (if c = sep then [] # Split sep cs
      else (case Split sep cs of [] \<Rightarrow> [[c]] | p # ps \<Rightarrow> (c # p) # ps))"

text \<open>
  The body of the scanner loop for one line \<open>message\<close>. Every \<open>continue\<close> leaves the
  state as it is. The send on \<open>transactionBuffer\<close> (capacity 100) waits while the channel
  is full; the model appends the transaction to what the channel delivers.
\<close>

definition handleMessage :: "ext \<Rightarrow> string \<Rightarrow> node \<Rightarrow> node" where
  "handleMessage x message st =
     (case Split (CHR '' '') message of
        [p0, p1] \<Rightarrow>
          (let dataHash = p1; scriptHash = p0 in
           case ipfsCat x dataHash of
             None \<Rightarrow> st
           | Some dataFile \<Rightarrow>
               (case ipfsCat x scriptHash of
                  None \<Rightarrow> st
                | Some scriptFile \<Rightarrow>
                    (case runScript x scriptFile dataFile of
                       None \<Rightarrow> st
                     | Some result \<Rightarrow>
                         let transaction = \<lparr>ID = generateTransactionID x result, Data = result\<rparr>
                         in st\<lparr>transactionBuffer := transactionBuffer st @ [transaction]\<rparr>)))
      | _ \<Rightarrow> st)"

section \<open>Block reception and validation (crypto.go, lines 270-326)\<close>

definition getBlockHash :: "ext \<Rightarrow> string \<Rightarrow> string" where
  "getBlockHash x data = EncodeToString (Sum256 x data)"

text \<open>The loop over \<open>block.Transactions\<close> of \<open>validateBlock\<close>.\<close>

fun validTransactions :: "Transaction list \<Rightarrow> bool" where
  "validTransactions [] = True"
| "validTransactions (tx # txs) = (if ID tx = [] then False else validTransactions txs)"

definition validateBlock :: "ext \<Rightarrow> string \<Rightarrow> string \<Rightarrow> nat \<Rightarrow> bool" where
  "validateBlock x data prevHash tgt =
     (case Unmarshal x data of
        None \<Rightarrow> False
      | Some block \<Rightarrow>
          if prevHash \<noteq> ''-1'' \<and> PrevHash block \<noteq> prevHash then False
          else validTransactions (Transactions block))"

text \<open>A Go map read gives the zero value for a key that is not there.\<close>

definition votes :: "node \<Rightarrow> string \<Rightarrow> goint" where
  "votes st h = (case blockValidations st h of None \<Rightarrow> 0 | Some n \<Rightarrow> n)"

text \<open>
  The body of the scanner loop of \<open>receiveAndValidateBlocks\<close> for one line. The
  comparison is Go's signed one; \<open>len(connectedMiners)/2\<close> is integer division of a
  non-negative length.
\<close>

definition receiveBlock :: "ext \<Rightarrow> string \<Rightarrow> node \<Rightarrow> node" where
  "receiveBlock x data st =
     (case Unmarshal x data of
        None \<Rightarrow> st
      | Some block \<Rightarrow>
          if validateBlock x data ''-1'' target then
            let blockHash = getBlockHash x data;
                st1 = st\<lparr>blockValidations :=
                        (blockValidations st)(blockHash \<mapsto> votes st blockHash + 1)\<rparr>
            in if sint (votes st1 blockHash) > int (length (connectedMiners x)) div 2
               then st1\<lparr>accepted := accepted st1 @ [blockHash]\<rparr>
               else st1
          else st)"

section \<open>The broadcast encoding: \<open>encoding/json\<close> on \<open>Block\<close>\<close>

text \<open>
  \<open>sendBlockToMiner\<close> writes \<open>json.Marshal(block)\<close> and the receiver calls
  \<open>json.Unmarshal\<close> on the line it read. Both are functions of Go's standard library;
  this section models what they do on the type \<open>Block\<close>, after \<open>encode.go\<close>,
  \<open>scanner.go\<close> and \<open>decode.go\<close> of \<open>encoding/json\<close>. Bit operations on bytes
  and runes are written with \<open>div\<close>, \<open>mod\<close> and \<open>+\<close> on \<open>nat\<close>.
\<close>

subsection \<open>UTF-8 (\<open>unicode/utf8\<close>)\<close>

text \<open>
  \<open>utf8.DecodeRune\<close> gives the rune at the head of the bytes and its width, or
  \<open>(RuneError, 1)\<close> when the bytes do not start with a valid encoding. The table
  \<open>first\<close> with its accept ranges is \<open>acceptRange\<close>: the width and the bounds of the
  second byte, \<open>None\<close> for a lead byte that is invalid.
\<close>

definition RuneError :: nat where
  "RuneError = 0xFFFD"

definition acceptRange :: "nat \<Rightarrow> (nat \<times> nat \<times> nat) option" where
  "acceptRange p0 =
     (if 0xC2 \<le> p0 \<and> p0 \<le> 0xDF then Some (2, 0x80, 0xBF)
      else if p0 = 0xE0 then Some (3, 0xA0, 0xBF)
      else if 0xE1 \<le> p0 \<and> p0 \<le> 0xEC then Some (3, 0x80, 0xBF)
      else if p0 = 0xED then Some (3, 0x80, 0x9F)
      else if 0xEE \<le> p0 \<and> p0 \<le> 0xEF then Some (3, 0x80, 0xBF)
      else if p0 = 0xF0 then Some (4, 0x90, 0xBF)
      else if 0xF1 \<le> p0 \<and> p0 \<le> 0xF3 then Some (4, 0x80, 0xBF)
      else if p0 = 0xF4 then Some (4, 0x80, 0x8F)
      else None)"

definition DecodeRune :: "string \<Rightarrow> nat \<times> nat" where
  "DecodeRune p =
     (case p of
        [] \<Rightarrow> (RuneError, 0)
      | c0 # _ \<Rightarrow>
          let p0 = of_char c0 in
          if p0 < 0x80 then (p0, 1)
          else
            (case acceptRange p0 of
               None \<Rightarrow> (RuneError, 1)
             | Some (sz, lo, hi) \<Rightarrow>
                 if length p < sz then (RuneError, 1)
                 else
                   let b1 = of_char (p ! 1) in
                   if b1 < lo \<or> hi < b1 then (RuneError, 1)
                   else if sz \<le> 2 then (p0 mod 32 * 64 + b1 mod 64, 2)
                   else
                     let b2 = of_char (p ! 2) in
                     if b2 < 0x80 \<or> 0xBF < b2 then (RuneError, 1)
                     else if sz \<le> 3 then (p0 mod 16 * 4096 + b1 mod 64 * 64 + b2 mod 64, 3)
                     else
                       let b3 = of_char (p ! 3) in
                       if b3 < 0x80 \<or> 0xBF < b3 then (RuneError, 1)
                       else (p0 mod 8 * 262144 + b1 mod 64 * 4096 + b2 mod 64 * 64 + b3 mod 64, 4)))"

text \<open>\<open>utf8.EncodeRune\<close>; a surrogate or a rune beyond U+10FFFF is written as U+FFFD.\<close>

definition EncodeRune :: "nat \<Rightarrow> string" where
  "EncodeRune r =
     (if r \<le> 0x7F then [char_of r]
      else if r \<le> 0x7FF then [char_of (0xC0 + r div 64), char_of (0x80 + r mod 64)]
      else if 0x10FFFF < r \<or> (0xD800 \<le> r \<and> r \<le> 0xDFFF) then [CHR 0xEF, CHR 0xBF, CHR 0xBD]
      else if r \<le> 0xFFFF then
        [char_of (0xE0 + r div 4096), char_of (0x80 + r div 64 mod 64), char_of (0x80 + r mod 64)]
      else
        [char_of (0xF0 + r div 262144), char_of (0x80 + r div 4096 mod 64),
         char_of (0x80 + r div 64 mod 64), char_of (0x80 + r mod 64)])"

text \<open>\<open>utf8.ValidString\<close>. A rune of width \<open>n\<close> is the byte \<open>c\<close> and \<open>n - 1\<close> further ones.\<close>

fun ValidString :: "string \<Rightarrow> bool" where
  "ValidString [] = True"
| "ValidString (c # cs) =
     (case DecodeRune (c # cs) of
        (r, n) \<Rightarrow> \<not> (r = RuneError \<and> n = 1) \<and> ValidString (drop (n - 1) cs))"

subsection \<open>\<open>json.Marshal\<close>\<close>

text \<open>
  \<open>appendString\<close> with \<open>escapeHTML\<close> set, as \<open>Marshal\<close> calls it: the bytes of
  \<open>htmlSafeSet\<close> are copied, the other ASCII bytes escaped, an invalid byte written as
  an escape of U+FFFD, U+2028 and U+2029 as their escapes, every other rune copied.
  Go before 1.22 writes the bytes 8 and 12 as hexadecimal escapes, where this writes the
  short escapes with b and f; the decoder reads both alike.
\<close>

definition htmlSafe :: "nat \<Rightarrow> bool" where
  "htmlSafe b \<longleftrightarrow> 0x20 \<le> b \<and> b \<noteq> 0x22 \<and> b \<noteq> 0x26 \<and> b \<noteq> 0x3C \<and> b \<noteq> 0x3E \<and> b \<noteq> 0x5C"

definition escapeByte :: "char \<Rightarrow> string" where
  "escapeByte c =
     (if c = CHR 0x5C \<or> c = CHR 0x22 then [CHR 0x5C, c]
      else if c = CHR 0x08 then [CHR 0x5C, CHR ''b'']
      else if c = CHR 0x0C then [CHR 0x5C, CHR ''f'']
      else if c = CHR 0x0A then [CHR 0x5C, CHR ''n'']
      else if c = CHR 0x0D then [CHR 0x5C, CHR ''r'']
      else if c = CHR 0x09 then [CHR 0x5C, CHR ''t'']
      else [CHR 0x5C, CHR ''u'', CHR ''0'', CHR ''0'',
            hextable ! (of_char c div 16), hextable ! (of_char c mod 16)])"

fun appendBytes :: "string \<Rightarrow> string" where
  "appendBytes [] = []"
| "appendBytes (c # cs) =
     (if (of_char c :: nat) < 0x80 then
        (if htmlSafe (of_char c) then c # appendBytes cs else escapeByte c @ appendBytes cs)
      else
        (case DecodeRune (c # cs) of
           (r, n) \<Rightarrow>
             if r = RuneError \<and> n = 1 then
               [CHR 0x5C, CHR ''u'', CHR ''f'', CHR ''f'', CHR ''f'', CHR ''d''] @ appendBytes cs
             else if r = 0x2028 \<or> r = 0x2029 then
               [CHR 0x5C, CHR ''u'', CHR ''2'', CHR ''0'', CHR ''2'', hextable ! (r mod 16)]
                 @ appendBytes (drop (n - 1) cs)
             else take n (c # cs) @ appendBytes (drop (n - 1) cs)))"

definition appendString :: "string \<Rightarrow> string" where
  "appendString s = CHR 0x22 # appendBytes s @ [CHR 0x22]"

text \<open>
  A struct is written as its fields in the order of declaration, each under its name; an
  \<open>int\<close> in decimal; a slice as an array. (A nil slice is written \<open>null\<close>; a list does
  not tell nil from empty, and the model writes \<open>[]\<close>. Both are read back as the empty
  list.)
\<close>

definition key :: "string \<Rightarrow> string" where
  "key name = CHR 0x22 # name @ [CHR 0x22, CHR '':'']"

definition Marshal_Transaction :: "Transaction \<Rightarrow> string" where
  "Marshal_Transaction tx =
     ''{'' @ key ''ID'' @ appendString (ID tx) @ '','' @ key ''Data'' @ appendString (Data tx) @ ''}''"

definition Marshal_Transactions :: "Transaction list \<Rightarrow> string" where
  "Marshal_Transactions txs = ''['' @ join '','' (map Marshal_Transaction txs) @ '']''"

definition Marshal :: "Block \<Rightarrow> string" where
  "Marshal b =
     ''{'' @ key ''PrevHash'' @ appendString (PrevHash b)
       @ '','' @ key ''Transactions'' @ Marshal_Transactions (Transactions b)
       @ '','' @ key ''Nonce'' @ fmt_d (Nonce b)
       @ '','' @ key ''Hash'' @ appendString (Hash b)
       @ '','' @ key ''PrevCID'' @ appendString (PrevCID b)
       @ '','' @ key ''BlockNumber'' @ fmt_d (BlockNumber b) @ ''}''"

subsection \<open>\<open>json.Unmarshal\<close>: the scanner\<close>

text \<open>
  \<open>Unmarshal\<close> first checks the whole input with the scanner (\<open>checkValid\<close>) and then
  stores values while it scans again. The model reads the input into a value of
  \<open>jvalue\<close>, failing where the scanner fails, and stores from that value.
\<close>

datatype jvalue =
    JNull
  | JBool bool
  | JNumber string
  | JString string
  | JArray "jvalue list"
  | JObject "(string \<times> jvalue) list"

definition isSpace :: "char \<Rightarrow> bool" where
  "isSpace c \<longleftrightarrow> c = CHR '' '' \<or> c = CHR 0x09 \<or> c = CHR 0x0D \<or> c = CHR 0x0A"

definition skipSpace :: "string \<Rightarrow> string" where
  "skipSpace s = dropWhile isSpace s"

definition isDigit :: "char \<Rightarrow> bool" where
  "isDigit c \<longleftrightarrow> (48::nat) \<le> of_char c \<and> (of_char c :: nat) \<le> 57"

text \<open>
  A string literal, from behind its opening quote: what the scanner accepts (no byte
  below \<open>0x20\<close>, the escapes of JSON), unquoted as \<open>unquoteBytes\<close> does it. A
  hexadecimal escape of a surrogate is joined with a following one when the two form a
  pair, and is U+FFFD otherwise; bytes that are no valid UTF-8 become U+FFFD.
  \<open>DecodeRune\<close> is given the input from the byte on, where \<open>unquoteBytes\<close> gives it
  the rest of the literal: the closing quote is no continuation byte, so both decode the
  same. The result is the unquoted string and the input behind the closing quote.
\<close>

definition hexval :: "char \<Rightarrow> nat option" where
  "hexval c =
     (let b = of_char c in
      if 48 \<le> b \<and> b \<le> 57 then Some (b - 48)
      else if 97 \<le> b \<and> b \<le> 102 then Some (b - 97 + 10)
      else if 65 \<le> b \<and> b \<le> 70 then Some (b - 65 + 10)
      else None)"

definition getu4 :: "char \<Rightarrow> char \<Rightarrow> char \<Rightarrow> char \<Rightarrow> nat option" where
  "getu4 h1 h2 h3 h4 =
     (case (hexval h1, hexval h2, hexval h3, hexval h4) of
        (Some a, Some b, Some c, Some d) \<Rightarrow> Some (((a * 16 + b) * 16 + c) * 16 + d)
      | _ \<Rightarrow> None)"

definition IsSurrogate :: "nat \<Rightarrow> bool" where
  "IsSurrogate r \<longleftrightarrow> 0xD800 \<le> r \<and> r < 0xE000"

definition utf16_DecodeRune :: "nat \<Rightarrow> nat \<Rightarrow> nat" where
  "utf16_DecodeRune r1 r2 =
     (if 0xD800 \<le> r1 \<and> r1 < 0xDC00 \<and> 0xDC00 \<le> r2 \<and> r2 < 0xE000
      then (r1 - 0xD800) * 1024 + (r2 - 0xDC00) + 0x10000
      else RuneError)"

definition secondEscape :: "nat \<Rightarrow> string \<Rightarrow> nat option" where
  "secondEscape rr s =
     (case s of
        b # u # g1 # g2 # g3 # g4 # _ \<Rightarrow>
          if b = CHR 0x5C \<and> u = CHR ''u'' then
            (case getu4 g1 g2 g3 g4 of
               None \<Rightarrow> None
             | Some rr1 \<Rightarrow>
                 if utf16_DecodeRune rr rr1 \<noteq> RuneError then Some (utf16_DecodeRune rr rr1)
                 else None)
          else None
      | _ \<Rightarrow> None)"

definition unescape :: "char \<Rightarrow> char option" where
  "unescape e =
     (if e = CHR 0x22 \<or> e = CHR 0x5C \<or> e = CHR ''/'' then Some e
      else if e = CHR ''b'' then Some (CHR 0x08)
      else if e = CHR ''f'' then Some (CHR 0x0C)
      else if e = CHR ''n'' then Some (CHR 0x0A)
      else if e = CHR ''r'' then Some (CHR 0x0D)
      else if e = CHR ''t'' then Some (CHR 0x09)
      else None)"

definition emit :: "string \<Rightarrow> (string \<times> string) option \<Rightarrow> (string \<times> string) option" where
  "emit pre res = (case res of None \<Rightarrow> None | Some (s, rest) \<Rightarrow> Some (pre @ s, rest))"

fun stringLit :: "string \<Rightarrow> (string \<times> string) option" where
  "stringLit [] = None"
| "stringLit (c # cs) =
     (if c = CHR 0x22 then Some ([], cs)
      else if c = CHR 0x5C then
        (case cs of
           [] \<Rightarrow> None
         | e # cs1 \<Rightarrow>
             if e = CHR ''u'' then
               (case cs1 of
                  h1 # h2 # h3 # h4 # cs2 \<Rightarrow>
                    (case getu4 h1 h2 h3 h4 of
                       None \<Rightarrow> None
                     | Some rr \<Rightarrow>
                         if IsSurrogate rr then
                           (case secondEscape rr cs2 of
                              Some dec \<Rightarrow> emit (EncodeRune dec) (stringLit (drop 6 cs2))
                            | None \<Rightarrow> emit (EncodeRune RuneError) (stringLit cs2))
                         else emit (EncodeRune rr) (stringLit cs2))
                | _ \<Rightarrow> None)
             else
               (case unescape e of
                  None \<Rightarrow> None
                | Some c' \<Rightarrow> emit [c'] (stringLit cs1)))
      else if (of_char c :: nat) < 0x20 then None
      else if (of_char c :: nat) < 0x80 then emit [c] (stringLit cs)
      else
        (case DecodeRune (c # cs) of
           (rr, n) \<Rightarrow> emit (EncodeRune rr) (stringLit (drop (n - 1) cs))))"

text \<open>
  A number literal: an optional minus, \<open>0\<close> or a digit from 1 to 9 followed by digits, an
  optional fraction and an optional exponent. The result is the literal and the input
  behind it.
\<close>

definition expPart :: "string \<Rightarrow> string \<Rightarrow> (string \<times> string) option" where
  "expPart acc s =
     (case s of
        [] \<Rightarrow> Some (acc, s)
      | c # t \<Rightarrow>
          if c = CHR ''e'' \<or> c = CHR ''E'' then
            (case (case t of
                     [] \<Rightarrow> ([], t)
                   | d # t' \<Rightarrow> if d = CHR ''+'' \<or> d = CHR ''-'' then ([d], t') else ([], t)) of
               (sg, t1) \<Rightarrow>
                 if takeWhile isDigit t1 = [] then None
                 else Some (acc @ c # sg @ takeWhile isDigit t1, dropWhile isDigit t1))
          else Some (acc, s))"

definition fracPart :: "string \<Rightarrow> string \<Rightarrow> (string \<times> string) option" where
  "fracPart acc s =
     (case s of
        [] \<Rightarrow> expPart acc s
      | c # t \<Rightarrow>
          if c = CHR ''.'' then
            (if takeWhile isDigit t = [] then None
             else expPart (acc @ c # takeWhile isDigit t) (dropWhile isDigit t))
          else expPart acc s)"

definition numberLit :: "string \<Rightarrow> (string \<times> string) option" where
  "numberLit s =
     (case (case s of
              [] \<Rightarrow> ([], s)
            | c # t \<Rightarrow> if c = CHR ''-'' then ([c], t) else ([], s)) of
        (sg, s1) \<Rightarrow>
          (case s1 of
             [] \<Rightarrow> None
           | c # t \<Rightarrow>
               if c = CHR ''0'' then fracPart (sg @ [c]) t
               else if isDigit c then fracPart (sg @ c # takeWhile isDigit t) (dropWhile isDigit t)
               else None))"

text \<open>
  Values, the elements of an array and the members of an object. \<open>d\<close> counts the arrays
  and objects that are open; the scanner fails beyond \<open>maxNestingDepth\<close>. The tests
  \<open>length r < length s\<close> hold whenever they are reached (the input behind a value is
  shorter than the input); they are what the termination proof uses.
\<close>

definition maxNestingDepth :: nat where
  "maxNestingDepth = 10000"

function parseValue :: "nat \<Rightarrow> string \<Rightarrow> (jvalue \<times> string) option"
  and parseElements :: "nat \<Rightarrow> string \<Rightarrow> (jvalue list \<times> string) option"
  and parseMembers :: "nat \<Rightarrow> string \<Rightarrow> ((string \<times> jvalue) list \<times> string) option"
where
  "parseValue d s =
     (case skipSpace s of
        [] \<Rightarrow> None
      | c # cs \<Rightarrow>
          if c = CHR ''{'' then
            (if maxNestingDepth \<le> d then None
             else
               (case skipSpace cs of
                  [] \<Rightarrow> None
                | c1 # cs1 \<Rightarrow>
                    if c1 = CHR ''}'' then Some (JObject [], cs1)
                    else (case parseMembers (Suc d) (c1 # cs1) of
                            None \<Rightarrow> None
                          | Some (ms, r) \<Rightarrow> Some (JObject ms, r))))
          else if c = CHR ''['' then
            (if maxNestingDepth \<le> d then None
             else
               (case skipSpace cs of
                  [] \<Rightarrow> None
                | c1 # cs1 \<Rightarrow>
                    if c1 = CHR '']'' then Some (JArray [], cs1)
                    else (case parseElements (Suc d) (c1 # cs1) of
                            None \<Rightarrow> None
                          | Some (vs, r) \<Rightarrow> Some (JArray vs, r))))
          else if c = CHR 0x22 then
            (case stringLit cs of None \<Rightarrow> None | Some (str, r) \<Rightarrow> Some (JString str, r))
          else if c = CHR ''-'' \<or> isDigit c then
            (case numberLit (c # cs) of None \<Rightarrow> None | Some (lit, r) \<Rightarrow> Some (JNumber lit, r))
          else if take 4 (c # cs) = ''true'' then Some (JBool True, drop 3 cs)
          else if take 5 (c # cs) = ''false'' then Some (JBool False, drop 4 cs)
          else if take 4 (c # cs) = ''null'' then Some (JNull, drop 3 cs)
          else None)"
| "parseElements d s =
     (case parseValue d s of
        None \<Rightarrow> None
      | Some (v, r) \<Rightarrow>
          (case skipSpace r of
             [] \<Rightarrow> None
           | c # r1 \<Rightarrow>
               if c = CHR '','' then
                 (if length r1 < length s then
                    (case parseElements d r1 of
                       None \<Rightarrow> None
                     | Some (vs, r2) \<Rightarrow> Some (v # vs, r2))
                  else None)
               else if c = CHR '']'' then Some ([v], r1)
               else None))"
| "parseMembers d s =
     (case skipSpace s of
        [] \<Rightarrow> None
      | q # s1 \<Rightarrow>
          if q \<noteq> CHR 0x22 then None
          else
            (case stringLit s1 of
               None \<Rightarrow> None
             | Some (k, r1) \<Rightarrow>
                 (case skipSpace r1 of
                    [] \<Rightarrow> None
                  | c # r2 \<Rightarrow>
                      if c \<noteq> CHR '':'' \<or> \<not> length r2 < length s then None
                      else
                        (case parseValue d r2 of
                           None \<Rightarrow> None
                         | Some (v, r3) \<Rightarrow>
                             (case skipSpace r3 of
                                [] \<Rightarrow> None
                              | c3 # r4 \<Rightarrow>
                                  if c3 = CHR '','' then
                                    (if length r4 < length s then
                                       (case parseMembers d r4 of
                                          None \<Rightarrow> None
                                        | Some (ms, r5) \<Rightarrow> Some ((k, v) # ms, r5))
                                     else None)
                                  else if c3 = CHR ''}'' then Some ([(k, v)], r4)
                                  else None)))))"
  by pat_completeness auto

termination
proof -
  have skip: "length cs < length s" if "skipSpace s = c # cs" for s c cs
  proof -
    have "length (skipSpace s) \<le> length s"
      by (simp add: skipSpace_def length_dropWhile_le)
    with that show ?thesis by simp
  qed
  show ?thesis
    by (relation "measure (\<lambda>x. case x of
              Inl (d, s) \<Rightarrow> 2 * length s
            | Inr (Inl (d, s)) \<Rightarrow> 2 * length s + 1
            | Inr (Inr (d, s)) \<Rightarrow> 2 * length s + 1)")
       (auto dest!: skip)
qed

declare parseValue.simps [simp del] parseElements.simps [simp del] parseMembers.simps [simp del]

definition parseJSON :: "string \<Rightarrow> jvalue option" where
  "parseJSON s =
     (case parseValue 0 s of
        None \<Rightarrow> None
      | Some (v, r) \<Rightarrow> if skipSpace r = [] then Some v else None)"

subsection \<open>\<open>json.Unmarshal\<close>: storing into a \<open>Block\<close>\<close>

text \<open>
  \<open>strconv.ParseInt(lit, 10, 64)\<close> on a number literal: a sign and decimal digits
  only, within the range of \<open>int64\<close>.
\<close>

definition ParseInt :: "string \<Rightarrow> goint option" where
  "ParseInt s =
     (case (case s of
              [] \<Rightarrow> (False, s)
            | c # t \<Rightarrow> if c = CHR ''-'' then (True, t) else if c = CHR ''+'' then (False, t)
                       else (False, s)) of
        (neg, ds) \<Rightarrow>
          if ds = [] \<or> \<not> list_all isDigit ds then None
          else
            let n = foldl (\<lambda>a c. a * 10 + (of_char c - 48)) (0::nat) ds in
            if neg then (if n \<le> 2 ^ 63 then Some (- word_of_nat n) else None)
            else (if n < 2 ^ 63 then Some (word_of_nat n) else None))"

text \<open>
  A key selects the field of that name, or else the field whose name is equal under
  \<open>foldName\<close>: ASCII letters in upper case and runes folded. U+017F and U+212A are the
  only runes beyond ASCII that fold to an ASCII letter (S and K); \<open>foldRune\<close> leaves the
  others as they are, which does not change the comparison with a field name.
\<close>

definition foldRune :: "nat \<Rightarrow> nat" where
  "foldRune r = (if r = 0x17F then 0x53 else if r = 0x212A then 0x4B else r)"

fun foldName :: "string \<Rightarrow> string" where
  "foldName [] = []"
| "foldName (c # cs) =
     (if (of_char c :: nat) < 0x80 then
        (if (97::nat) \<le> of_char c \<and> (of_char c :: nat) \<le> 122
         then char_of (of_char c - (32::nat)) else c) # foldName cs
      else
        (case DecodeRune (c # cs) of
           (r, n) \<Rightarrow> EncodeRune (foldRune r) @ foldName (drop (n - 1) cs)))"

definition findField :: "string list \<Rightarrow> string \<Rightarrow> string option" where
  "findField names k =
     (if k \<in> set names then Some k
      else find (\<lambda>name. foldName name = foldName k) names)"

text \<open>
  Storing a value into a field (\<open>literalStore\<close>, \<open>object\<close>, \<open>array\<close> of \<open>decode.go\<close>):
  \<open>null\<close> leaves a string, an \<open>int\<close> and a struct as they are and makes a slice nil; a
  value of another kind than the field is an \<open>UnmarshalTypeError\<close>, with which
  \<open>Unmarshal\<close> returns an error; a key without a field is skipped. An array is stored
  element by element into the slice, from index 0, into the element that is there or a
  zero element; \<open>backing\<close> is the slice with the elements behind its length, which an
  earlier, longer array under the same key has left.
\<close>

definition zeroTransaction :: Transaction where
  "zeroTransaction = \<lparr>ID = [], Data = []\<rparr>"

definition zeroBlock :: Block where
  "zeroBlock =
     \<lparr>PrevHash = [], Transactions = [], Nonce = 0, Hash = [], PrevCID = [], BlockNumber = 0\<rparr>"

fun storeString :: "jvalue \<Rightarrow> string \<Rightarrow> string option" where
  "storeString (JString s) cur = Some s"
| "storeString JNull cur = Some cur"
| "storeString _ cur = None"

fun storeInt :: "jvalue \<Rightarrow> goint \<Rightarrow> goint option" where
  "storeInt (JNumber lit) cur = ParseInt lit"
| "storeInt JNull cur = Some cur"
| "storeInt _ cur = None"

fun storeMembers :: "(string \<times> jvalue \<Rightarrow> 'a \<Rightarrow> 'a option) \<Rightarrow> (string \<times> jvalue) list \<Rightarrow> 'a \<Rightarrow> 'a option" where
  "storeMembers f [] a = Some a"
| "storeMembers f (m # ms) a = (case f m a of None \<Rightarrow> None | Some a' \<Rightarrow> storeMembers f ms a')"

definition storeTransactionField :: "string \<times> jvalue \<Rightarrow> Transaction \<Rightarrow> Transaction option" where
  "storeTransactionField m tx =
     (case findField [''ID'', ''Data''] (fst m) of
        None \<Rightarrow> Some tx
      | Some f \<Rightarrow>
          if f = ''ID'' then map_option (\<lambda>s. tx\<lparr>ID := s\<rparr>) (storeString (snd m) (ID tx))
          else map_option (\<lambda>s. tx\<lparr>Data := s\<rparr>) (storeString (snd m) (Data tx)))"

fun storeTransaction :: "jvalue \<Rightarrow> Transaction \<Rightarrow> Transaction option" where
  "storeTransaction (JObject ms) tx = storeMembers storeTransactionField ms tx"
| "storeTransaction JNull tx = Some tx"
| "storeTransaction _ tx = None"

fun storeElements :: "jvalue list \<Rightarrow> Transaction list \<Rightarrow> Transaction list option" where
  "storeElements [] backing = Some []"
| "storeElements (v # vs) backing =
     (case storeTransaction v (case backing of [] \<Rightarrow> zeroTransaction | t # _ \<Rightarrow> t) of
        None \<Rightarrow> None
      | Some t' \<Rightarrow> map_option ((#) t') (storeElements vs (tl backing)))"

fun storeSlice :: "jvalue \<Rightarrow> Transaction list \<Rightarrow> (Transaction list \<times> Transaction list) option" where
  "storeSlice (JArray vs) backing =
     (if vs = [] then Some ([], [])
      else map_option (\<lambda>elems. (elems, drop (length vs) backing)) (storeElements vs backing))"
| "storeSlice JNull backing = Some ([], [])"
| "storeSlice _ backing = None"

definition storeBlockField :: "string \<times> jvalue \<Rightarrow> Block \<times> Transaction list \<Rightarrow> (Block \<times> Transaction list) option" where
  "storeBlockField m bs =
     (case bs of
        (b, stale) \<Rightarrow>
          (case findField [''PrevHash'', ''Transactions'', ''Nonce'', ''Hash'', ''PrevCID'', ''BlockNumber'']
                  (fst m) of
             None \<Rightarrow> Some (b, stale)
           | Some f \<Rightarrow>
               if f = ''PrevHash'' then
                 map_option (\<lambda>s. (b\<lparr>PrevHash := s\<rparr>, stale)) (storeString (snd m) (PrevHash b))
               else if f = ''Transactions'' then
                 map_option (\<lambda>(elems, stale'). (b\<lparr>Transactions := elems\<rparr>, stale'))
                   (storeSlice (snd m) (Transactions b @ stale))
               else if f = ''Nonce'' then
                 map_option (\<lambda>n. (b\<lparr>Nonce := n\<rparr>, stale)) (storeInt (snd m) (Nonce b))
               else if f = ''Hash'' then
                 map_option (\<lambda>s. (b\<lparr>Hash := s\<rparr>, stale)) (storeString (snd m) (Hash b))
               else if f = ''PrevCID'' then
                 map_option (\<lambda>s. (b\<lparr>PrevCID := s\<rparr>, stale)) (storeString (snd m) (PrevCID b))
               else
                 map_option (\<lambda>n. (b\<lparr>BlockNumber := n\<rparr>, stale)) (storeInt (snd m) (BlockNumber b))))"

definition json_Unmarshal :: "string \<Rightarrow> Block option" where
  "json_Unmarshal s =
     (case parseJSON s of
        None \<Rightarrow> None
      | Some (JObject ms) \<Rightarrow> map_option fst (storeMembers storeBlockField ms (zeroBlock, []))
      | Some JNull \<Rightarrow> Some zeroBlock
      | Some _ \<Rightarrow> None)"

subsection \<open>What a round trip preserves\<close>

text \<open>
  The strings that come back from a round trip: each byte that is not part of a valid
  UTF-8 sequence is replaced by the three bytes of U+FFFD. These definitions state the
  result; they are not part of the program.
\<close>

fun coerceUTF8 :: "string \<Rightarrow> string" where
  "coerceUTF8 [] = []"
| "coerceUTF8 (c # cs) =
     (if (of_char c :: nat) < 0x80 then c # coerceUTF8 cs
      else
        (case DecodeRune (c # cs) of
           (r, n) \<Rightarrow>
             if r = RuneError \<and> n = 1 then [CHR 0xEF, CHR 0xBF, CHR 0xBD] @ coerceUTF8 cs
             else take n (c # cs) @ coerceUTF8 (drop (n - 1) cs)))"

definition delimiter :: "char \<Rightarrow> bool" where
  "delimiter c \<longleftrightarrow> c = CHR '','' \<or> c = CHR ''}''"

definition coerce_Transaction :: "Transaction \<Rightarrow> Transaction" where
  "coerce_Transaction tx = \<lparr>ID = coerceUTF8 (ID tx), Data = coerceUTF8 (Data tx)\<rparr>"

definition toJSON_Transaction :: "Transaction \<Rightarrow> jvalue" where
  "toJSON_Transaction tx = JObject [(''ID'', JString (ID tx)), (''Data'', JString (Data tx))]"

definition ValidTransaction :: "Transaction \<Rightarrow> bool" where
  "ValidTransaction tx \<longleftrightarrow> ValidString (ID tx) \<and> ValidString (Data tx)"

definition ValidBlock :: "Block \<Rightarrow> bool" where
  "ValidBlock b \<longleftrightarrow>
     ValidString (PrevHash b) \<and> ValidString (Hash b) \<and> ValidString (PrevCID b)
     \<and> list_all ValidTransaction (Transactions b)"

definition coerce_Block :: "Block \<Rightarrow> Block" where
  "coerce_Block b =
     b\<lparr>PrevHash := coerceUTF8 (PrevHash b),
       Transactions := map coerce_Transaction (Transactions b),
       Hash := coerceUTF8 (Hash b),
       PrevCID := coerceUTF8 (PrevCID b)\<rparr>"

definition toJSON_Block :: "Block \<Rightarrow> jvalue" where
  "toJSON_Block b =
     JObject
       [(''PrevHash'', JString (PrevHash b)),
        (''Transactions'', JArray (map toJSON_Transaction (Transactions b))),
        (''Nonce'', JNumber (fmt_d (Nonce b))),
        (''Hash'', JString (Hash b)),
        (''PrevCID'', JString (PrevCID b)),
        (''BlockNumber'', JNumber (fmt_d (BlockNumber b)))]"

section \<open>Concrete inputs\<close>

text \<open>
  Inputs on which the theorems below are instantiated. The stand-in digest is 32 bytes
  \<open>0x00\<close> for a text that ends in the digit 2 and 32 bytes \<open>0xff\<close> otherwise, so that the
  search started at nonce 0 succeeds at nonce 2. The decoder is the one of the previous
  section.
\<close>

definition tx_A :: Transaction where "tx_A = \<lparr>ID = ''a1'', Data = ''result-A''\<rparr>"
definition tx_B :: Transaction where "tx_B = \<lparr>ID = ''b2'', Data = ''result-B''\<rparr>"
definition tx_C :: Transaction where "tx_C = \<lparr>ID = ''c3'', Data = ''result-C''\<rparr>"
definition tx_D :: Transaction where "tx_D = \<lparr>ID = ''d4'', Data = ''result-D''\<rparr>"
definition tx_E :: Transaction where "tx_E = \<lparr>ID = ''e5'', Data = ''result-E''\<rparr>"
definition tx_F :: Transaction where "tx_F = \<lparr>ID = ''f6'', Data = ''result-F''\<rparr>"

definition demo_block :: Block where
  "demo_block =
     \<lparr>PrevHash = ''-1'', Transactions = [tx_A, tx_B, tx_C], Nonce = 2,
      Hash = replicate 64 (CHR ''0''), PrevCID = ''QmDemo'', BlockNumber = 0\<rparr>"

definition block_empty_id :: Block where
  "block_empty_id = demo_block\<lparr>Transactions := [tx_A, \<lparr>ID = [], Data = ''result-B''\<rparr>, tx_C]\<rparr>"

definition block_no_tx :: Block where
  "block_no_tx =
     \<lparr>PrevHash = ''abc'', Transactions = [], Nonce = 7, Hash = ''not-a-digest'',
      PrevCID = [], BlockNumber = 0\<rparr>"

definition demo_ext :: ext where
  "demo_ext =
     \<lparr>Sum256 = (\<lambda>s. replicate 32 (if last s = CHR ''2'' then 0 else 255)),
      Unmarshal = json_Unmarshal,
      stopReady = (\<lambda>k. False),
      ipfsAdd = (\<lambda>k d. Some ''QmDemo''),
      ipfsCat = [''scriptRefA'' \<mapsto> ''print(1)'', ''dataRefA'' \<mapsto> ''1''],
      runScript = (\<lambda>s d. if s = ''print(1)'' then Some ''result-A'' else None),
      connectedMiners = [''127.0.0.1'']\<rparr>"

definition failing_ext :: ext where
  "failing_ext = demo_ext\<lparr>ipfsAdd := (\<lambda>k d. None), stopReady := (\<lambda>k. 4 \<le> k)\<rparr>"


definition five_ext :: ext where
  "five_ext = demo_ext\<lparr>connectedMiners := [''p1'', ''p2'', ''p3'', ''p4'', ''p5'']\<rparr>"

definition demo_node :: node where
  "demo_node =
     \<lparr>transactionBuffer = [tx_A, tx_B, tx_C, tx_D, tx_E, tx_F], minedBlocks = 0,
      blockValidations = Map.empty, sent = [], newBlock = [], accepted = [],
      polls = 0, adds = 0\<rparr>"

definition searching_node :: node where
  "searching_node = demo_node\<lparr>transactionBuffer := [tx_D, tx_E, tx_F], polls := 1\<rparr>"

definition mined_node :: node where
  "mined_node =
     demo_node\<lparr>transactionBuffer := [tx_D, tx_E, tx_F], minedBlocks := 1,
                sent := [(''127.0.0.1'', demo_block)], newBlock := [demo_block],
                polls := 4, adds := 1\<rparr>"

definition utf8_block :: Block where
  "utf8_block =
     \<lparr>PrevHash = ''-1'',
      Transactions =
        [\<lparr>ID = ''a1'', Data = [CHR ''<'', CHR 0xC3, CHR 0xA9, CHR 0x0A]\<rparr>,
         \<lparr>ID = ''b2'', Data = [CHR 0xE2, CHR 0x80, CHR 0xA8, CHR 0x22]\<rparr>],
      Nonce = 2, Hash = ''00ff'', PrevCID = ''QmDemo'', BlockNumber = - 1\<rparr>"

definition latin1_block :: Block where
  "latin1_block =
     \<lparr>PrevHash = ''-1'', Transactions = [\<lparr>ID = ''a1'', Data = [CHR 0xFF]\<rparr>],
      Nonce = 2, Hash = ''00ff'', PrevCID = ''QmDemo'', BlockNumber = 0\<rparr>"

section \<open>Facts about the mining loop\<close>

lemma foldl_sendBlockToMiner:
  "foldl (\<lambda>s miner. sendBlockToMiner miner b s) st ms =
     st\<lparr>sent := sent st @ map (\<lambda>miner. (miner, b)) ms\<rparr>"
  by (induction ms arbitrary: st) (simp_all add: sendBlockToMiner_def)

lemma pow_iter_Continue:
  assumes "pow_iter x ph pc txs nonce st = (Continue nonce', st')"
  shows "sent st' = sent st \<and> newBlock st' = newBlock st
       \<and> transactionBuffer st' = transactionBuffer st \<and> polls st' = Suc (polls st)"
  using assms
  by (auto simp: pow_iter_def Let_def uploadBlockToIPFS_def foldl_sendBlockToMiner
           split: if_splits option.splits)

lemma pow_iter_Emitted:
  assumes "pow_iter x ph pc txs nonce st = (Return (Emitted b), st')"
  shows "PrevHash b = ph \<and> Transactions b = txs \<and> Nonce b = nonce
       \<and> Hash b = EncodeToString (Sum256 x (blockData ph txs nonce))
       \<and> SetBytes (Sum256 x (blockData ph txs nonce)) < target
       \<and> ipfsAdd x (adds st) (fmt_v_Block (b\<lparr>PrevCID := pc\<rparr>)) = Some (PrevCID b)
       \<and> sent st' = sent st @ map (\<lambda>miner. (miner, b)) (connectedMiners x)
       \<and> newBlock st' = newBlock st @ [b]
       \<and> transactionBuffer st' = transactionBuffer st"
  using assms
  by (auto simp: pow_iter_def Let_def uploadBlockToIPFS_def foldl_sendBlockToMiner
           split: if_splits option.splits)



text \<open>What holds of a block the loop emits, by induction on the iterations.\<close>

lemma pow_loop_Emitted:
  assumes "pow_loop fuel x ph pc txs nonce st = Some (Emitted b, st')"
  shows "PrevHash b = ph \<and> Transactions b = txs
       \<and> Hash b = EncodeToString (Sum256 x (blockData ph txs (Nonce b)))
       \<and> SetBytes (Sum256 x (blockData ph txs (Nonce b))) < target
       \<and> sent st' = sent st @ map (\<lambda>miner. (miner, b)) (connectedMiners x)
       \<and> newBlock st' = newBlock st @ [b]
       \<and> transactionBuffer st' = transactionBuffer st"
  using assms
proof (induction fuel arbitrary: nonce st)
  case 0
  then show ?case by simp
next
  case (Suc fuel)
  obtain r s1 where it: "pow_iter x ph pc txs nonce st = (r, s1)"
    by (cases "pow_iter x ph pc txs nonce st")
  show ?case
  proof (cases r)
    case (Continue n')
    with it Suc.prems have "pow_loop fuel x ph pc txs n' s1 = Some (Emitted b, st')"
      by simp
    from Suc.IH [OF this] pow_iter_Continue [OF it [unfolded Continue]]
    show ?thesis by simp
  next
    case (Return out)
    with it Suc.prems have "out = Emitted b" "s1 = st'"
      by simp_all
    with it Return pow_iter_Emitted [of x ph pc txs nonce st b st']
    show ?thesis by simp
  qed
qed

lemma pow_loop_cid:
  assumes "pow_loop fuel x ph pc txs nonce st = Some (Emitted b, st')"
  shows "\<exists>k. ipfsAdd x k (fmt_v_Block (b\<lparr>PrevCID := pc\<rparr>)) = Some (PrevCID b)"
  using assms
proof (induction fuel arbitrary: nonce st)
  case 0
  then show ?case by simp
next
  case (Suc fuel)
  obtain r s1 where it: "pow_iter x ph pc txs nonce st = (r, s1)"
    by (cases "pow_iter x ph pc txs nonce st")
  show ?case
  proof (cases r)
    case (Continue n')
    with it Suc.prems have "pow_loop fuel x ph pc txs n' s1 = Some (Emitted b, st')"
      by simp
    then show ?thesis by (rule Suc.IH)
  next
    case (Return out)
    with it Suc.prems have "pow_iter x ph pc txs nonce st = (Return (Emitted b), st')"
      by simp
    from pow_iter_Emitted [OF this] show ?thesis by blast
  qed
qed



section \<open>Facts about validation\<close>

lemma validTransactions_iff: "validTransactions txs \<longleftrightarrow> (\<forall>tx \<in> set txs. ID tx \<noteq> [])"
  by (induction txs) auto

section \<open>Evaluation on the concrete inputs\<close>

lemma decimal_digit: "n < 10 \<Longrightarrow> decimal n = [''0123456789'' ! n]"
  by (simp add: decimal.simps)

lemma replicate_32:
  "replicate 32 v =
     [v, v, v, v, v, v, v, v, v, v, v, v, v, v, v, v, v, v, v, v, v, v, v, v, v, v, v, v, v, v, v, v]"
  by (simp add: numeral_eq_Suc)

lemma digest_ff_not_below: "\<not> SetBytes (replicate 32 255) < target"
  by (simp add: replicate_32 SetBytes_def target_def)

lemma digest_00_below: "SetBytes (replicate 32 0) < target"
  by (simp add: replicate_32 SetBytes_def target_def)

lemma hex_00: "EncodeToString (replicate 32 0) = replicate 64 (CHR ''0'')"
  by code_simp

lemma hex_ff: "EncodeToString (replicate 32 255) = replicate 64 (CHR ''f'')"
  by code_simp

lemma demo_digests:
  "Sum256 demo_ext (blockData ''-1'' [tx_A, tx_B, tx_C] 0) = replicate 32 255"
  "Sum256 demo_ext (blockData ''-1'' [tx_A, tx_B, tx_C] 1) = replicate 32 255"
  "Sum256 demo_ext (blockData ''-1'' [tx_A, tx_B, tx_C] 2) = replicate 32 0"
  by (simp_all add: demo_ext_def blockData_def fmt_d_def decimal_digit)

lemma demo_ext_simps:
  "Sum256 (demo_ext\<lparr>ipfsAdd := a, stopReady := s\<rparr>) = Sum256 demo_ext"
  "Sum256 (demo_ext\<lparr>stopReady := s\<rparr>) = Sum256 demo_ext"
  "connectedMiners demo_ext = [''127.0.0.1'']"
  "stopReady demo_ext k = False"
  "ipfsAdd demo_ext k d = Some ''QmDemo''"
  by (simp_all add: demo_ext_def)

lemma fuel_4: "(4::nat) = Suc (Suc (Suc (Suc 0)))"
  by simp

lemma demo_run:
  "startMining 3 demo_ext ''-1'' ''-1'' demo_node = Some (Emitted demo_block, mined_node)"
  by (simp add: startMining_def demo_node_def mined_node_def numeral_3_eq_3 pow_iter_def
        demo_ext_simps demo_digests digest_00_below digest_ff_not_below hex_00 Let_def
        uploadBlockToIPFS_def sendBlockToMiner_def demo_block_def)

lemma failing_run:
  "startMining 4 failing_ext ''-1'' ''-1'' demo_node =
     Some (Stopped,
           demo_node\<lparr>transactionBuffer := [tx_D, tx_E, tx_F], minedBlocks := 1,
                      polls := 5, adds := 1\<rparr>)"
  by (simp add: startMining_def demo_node_def fuel_4 pow_iter_def failing_ext_def
        demo_ext_simps demo_digests digest_00_below digest_ff_not_below hex_00 Let_def
        uploadBlockToIPFS_def)


section \<open>Facts about the broadcast encoding\<close>

subsection \<open>Runes\<close>

lemma mod_32_lead: "(a::nat) < 32 \<Longrightarrow> (192 + a) mod 32 = a"
  using mod_mult_self2 [of a 32 6] by (simp add: add.commute)

lemma mod_64_cont: "(b::nat) < 64 \<Longrightarrow> (128 + b) mod 64 = b"
  using mod_mult_self2 [of b 64 2] by (simp add: add.commute)

lemma mod_16_lead: "(a::nat) < 16 \<Longrightarrow> (224 + a) mod 16 = a"
  using mod_mult_self2 [of a 16 14] by (simp add: add.commute)

lemma mod_8_lead: "(a::nat) < 8 \<Longrightarrow> (240 + a) mod 8 = a"
  using mod_mult_self2 [of a 8 30] by (simp add: add.commute)

lemma EncodeRune_2:
  assumes "0xC2 \<le> p0" "p0 \<le> 0xDF" "0x80 \<le> b1" "b1 \<le> 0xBF"
  shows "EncodeRune (p0 mod 32 * 64 + b1 mod 64) = [char_of p0, char_of b1]"
proof -
  define a where "a = p0 - 192"
  define b where "b = b1 - 128"
  from assms have p: "p0 = 192 + a" "a < 32" "2 \<le> a" and q: "b1 = 128 + b" "b < 64"
    by (simp_all add: a_def b_def)
  have m: "p0 mod 32 = a" "b1 mod 64 = b"
    using p q mod_32_lead mod_64_cont by simp_all
  have "\<not> a * 64 + b \<le> 0x7F" "a * 64 + b \<le> 0x7FF"
    using p q by simp_all
  then show ?thesis
    unfolding m EncodeRune_def using q(2) by (simp add: p q add.commute)
qed

lemma EncodeRune_3:
  assumes "0xE0 \<le> p0" "p0 \<le> 0xEF" "0x80 \<le> b1" "b1 \<le> 0xBF" "0x80 \<le> b2" "b2 \<le> 0xBF"
    and "p0 = 0xE0 \<longrightarrow> 0xA0 \<le> b1" and "p0 = 0xED \<longrightarrow> b1 \<le> 0x9F"
  shows "EncodeRune (p0 mod 16 * 4096 + b1 mod 64 * 64 + b2 mod 64) = [char_of p0, char_of b1, char_of b2]"
proof -
  define a where "a = p0 - 224"
  define b where "b = b1 - 128"
  define c where "c = b2 - 128"
  from assms have p: "p0 = 224 + a" "a < 16" and q: "b1 = 128 + b" "b < 64"
    and q2: "b2 = 128 + c" "c < 64" and s: "a = 0 \<longrightarrow> 32 \<le> b" "a = 13 \<longrightarrow> b \<le> 31"
    by (auto simp add: a_def b_def c_def)
  have m: "p0 mod 16 = a" "b1 mod 64 = b" "b2 mod 64 = c"
    using p q q2 mod_16_lead mod_64_cont by simp_all
  let ?r = "a * 4096 + b * 64 + c"
  have lo: "\<not> ?r \<le> 0x7FF"
    using s q q2 by (cases "a = 0") auto
  have sur: "\<not> (0xD800 \<le> ?r \<and> ?r \<le> 0xDFFF)"
  proof
    assume h: "0xD800 \<le> ?r \<and> ?r \<le> 0xDFFF"
    have "a = 13"
    proof (rule ccontr)
      assume "a \<noteq> 13"
      then consider "a \<le> 12" | "14 \<le> a" by linarith
      then show False using h q q2 by cases simp_all
    qed
    with s h q2 show False by simp
  qed
  have hi: "?r \<le> 0xFFFF" "\<not> 0x10FFFF < ?r"
    using p q q2 by simp_all
  have d1: "?r div 4096 = a"
    using q q2 by simp
  have d2: "?r div 64 mod 64 = b"
  proof -
    have "?r div 64 = a * 64 + b" using q2 by simp
    then show ?thesis using q by simp
  qed
  have d3: "?r mod 64 = c"
  proof -
    have "?r = c + 64 * (a * 64 + b)" by simp
    then have "?r mod 64 = c mod 64" by (simp only: mod_mult_self2)
    then show ?thesis using q2 by simp
  qed
  show ?thesis
    unfolding m EncodeRune_def using lo sur hi
    by (simp only: d1 d2 d3 if_False if_True p q q2 simp_thms) (simp add: add.commute)
qed


lemma EncodeRune_4:
  assumes "0xF0 \<le> p0" "p0 \<le> 0xF4" "0x80 \<le> b1" "b1 \<le> 0xBF" "0x80 \<le> b2" "b2 \<le> 0xBF"
    "0x80 \<le> b3" "b3 \<le> 0xBF"
    and "p0 = 0xF0 \<longrightarrow> 0x90 \<le> b1" and "p0 = 0xF4 \<longrightarrow> b1 \<le> 0x8F"
  shows "EncodeRune (p0 mod 8 * 262144 + b1 mod 64 * 4096 + b2 mod 64 * 64 + b3 mod 64)
           = [char_of p0, char_of b1, char_of b2, char_of b3]"
proof -
  define a where "a = p0 - 240"
  define b where "b = b1 - 128"
  define c where "c = b2 - 128"
  define e where "e = b3 - 128"
  from assms have p: "p0 = 240 + a" "a < 8" "a \<le> 4" and q: "b1 = 128 + b" "b < 64"
    and q2: "b2 = 128 + c" "c < 64" and q3: "b3 = 128 + e" "e < 64"
    and s: "a = 0 \<longrightarrow> 16 \<le> b" "a = 4 \<longrightarrow> b \<le> 15"
    by (auto simp add: a_def b_def c_def e_def)
  have m: "p0 mod 8 = a" "b1 mod 64 = b" "b2 mod 64 = c" "b3 mod 64 = e"
    using p q q2 q3 mod_8_lead mod_64_cont by simp_all
  let ?r = "a * 262144 + b * 4096 + c * 64 + e"
  have lo: "\<not> ?r \<le> 0xFFFF"
    using s q q2 q3 by (cases "a = 0") auto
  have hi: "\<not> 0x10FFFF < ?r"
  proof (cases "a = 4")
    case True
    with s q2 q3 show ?thesis by simp
  next
    case False
    with p have "a \<le> 3" by simp
    with q q2 q3 show ?thesis by simp
  qed
  have d1: "?r div 262144 = a"
    using q q2 q3 by simp
  have d2: "?r div 4096 mod 64 = b"
  proof -
    have "?r div 4096 = a * 64 + b" using q2 q3 by simp
    then show ?thesis using q by simp
  qed
  have d3: "?r div 64 mod 64 = c"
  proof -
    have "?r div 64 = a * 4096 + b * 64 + c" using q3 by simp
    moreover have "a * 4096 + b * 64 + c = c + 64 * (a * 64 + b)" by simp
    ultimately have "?r div 64 mod 64 = c mod 64" by (simp only: mod_mult_self2)
    then show ?thesis using q2 by simp
  qed
  have d4: "?r mod 64 = e"
  proof -
    have "?r = e + 64 * (a * 4096 + b * 64 + c)" by simp
    then have "?r mod 64 = e mod 64" by (simp only: mod_mult_self2)
    then show ?thesis using q3 by simp
  qed
  have n1: "\<not> ?r \<le> 0x7F" "\<not> ?r \<le> 0x7FF" "\<not> (0xD800 \<le> ?r \<and> ?r \<le> 0xDFFF)"
    using lo by simp_all
  show ?thesis
    unfolding m EncodeRune_def using lo hi n1
    by (simp only: d1 d2 d3 d4 if_False if_True p q q2 q3 simp_thms)
qed


lemma acceptRange_cases:
  assumes "acceptRange p0 = Some (sz, lo, hi)"
  shows "(sz = 2 \<and> 0xC2 \<le> p0 \<and> p0 \<le> 0xDF \<and> lo = 0x80 \<and> hi = 0xBF)
       \<or> (sz = 3 \<and> 0xE0 \<le> p0 \<and> p0 \<le> 0xEF \<and> 0x80 \<le> lo \<and> hi \<le> 0xBF
            \<and> (p0 = 0xE0 \<longrightarrow> lo = 0xA0) \<and> (p0 = 0xED \<longrightarrow> hi = 0x9F))
       \<or> (sz = 4 \<and> 0xF0 \<le> p0 \<and> p0 \<le> 0xF4 \<and> 0x80 \<le> lo \<and> hi \<le> 0xBF
            \<and> (p0 = 0xF0 \<longrightarrow> lo = 0x90) \<and> (p0 = 0xF4 \<longrightarrow> hi = 0x8F))"
  using assms by (auto simp: acceptRange_def split: if_splits)

text \<open>A decoded rune that is not the error of width 1 is encoded back to the bytes read.\<close>

lemma DecodeRune_EncodeRune:
  assumes "DecodeRune (c # cs) = (r, n)" and "\<not> (r = RuneError \<and> n = 1)"
    and "\<not> (of_char c :: nat) < 0x80"
  shows "EncodeRune r = take n (c # cs) \<and> 2 \<le> n \<and> n \<le> length (c # cs)"
proof (cases "acceptRange (of_char c)")
  case None
  with assms show ?thesis by (simp add: DecodeRune_def)
next
  case (Some t)
  obtain sz lo hi where t: "t = (sz, lo, hi)" by (cases t)
  note ar = Some [unfolded t]
  from assms ar have len: "sz \<le> length (c # cs)"
    by (auto simp: DecodeRune_def Let_def split: if_splits)
  from acceptRange_cases [OF ar] consider
      (two) "sz = 2" | (three) "sz = 3" | (four) "sz = 4" by blast
  then show ?thesis
  proof cases
    case two
    with len obtain c1 cs1 where cs: "cs = c1 # cs1" by (cases cs) auto
    from assms ar two cs acceptRange_cases [OF ar]
    have "r = of_char c mod 32 * 64 + of_char c1 mod 64 \<and> n = 2
          \<and> (0xC2::nat) \<le> of_char c \<and> (of_char c :: nat) \<le> 0xDF
          \<and> (0x80::nat) \<le> of_char c1 \<and> (of_char c1 :: nat) \<le> 0xBF"
      by (auto simp: DecodeRune_def Let_def split: if_splits)
    with EncodeRune_2 [of "of_char c" "of_char c1"] cs show ?thesis by simp
  next
    case three
    with len obtain c1 c2 cs2 where cs: "cs = c1 # c2 # cs2"
      by (cases cs; cases "tl cs") auto
    from assms ar three cs acceptRange_cases [OF ar]
    have "r = of_char c mod 16 * 4096 + of_char c1 mod 64 * 64 + of_char c2 mod 64 \<and> n = 3
          \<and> (0xE0::nat) \<le> of_char c \<and> (of_char c :: nat) \<le> 0xEF
          \<and> (0x80::nat) \<le> of_char c1 \<and> (of_char c1 :: nat) \<le> 0xBF
          \<and> (0x80::nat) \<le> of_char c2 \<and> (of_char c2 :: nat) \<le> 0xBF
          \<and> ((of_char c :: nat) = 0xE0 \<longrightarrow> (0xA0::nat) \<le> of_char c1)
          \<and> ((of_char c :: nat) = 0xED \<longrightarrow> (of_char c1 :: nat) \<le> 0x9F)"
      by (auto simp: DecodeRune_def Let_def split: if_splits)
    with EncodeRune_3 [of "of_char c" "of_char c1" "of_char c2"] cs show ?thesis by simp
  next
    case four
    with len obtain c1 c2 c3 cs3 where cs: "cs = c1 # c2 # c3 # cs3"
      by (cases cs; cases "tl cs"; cases "tl (tl cs)") auto
    from assms ar four cs acceptRange_cases [OF ar]
    have "r = of_char c mod 8 * 262144 + of_char c1 mod 64 * 4096 + of_char c2 mod 64 * 64
                + of_char c3 mod 64 \<and> n = 4
          \<and> (0xF0::nat) \<le> of_char c \<and> (of_char c :: nat) \<le> 0xF4
          \<and> (0x80::nat) \<le> of_char c1 \<and> (of_char c1 :: nat) \<le> 0xBF
          \<and> (0x80::nat) \<le> of_char c2 \<and> (of_char c2 :: nat) \<le> 0xBF
          \<and> (0x80::nat) \<le> of_char c3 \<and> (of_char c3 :: nat) \<le> 0xBF
          \<and> ((of_char c :: nat) = 0xF0 \<longrightarrow> (0x90::nat) \<le> of_char c1)
          \<and> ((of_char c :: nat) = 0xF4 \<longrightarrow> (of_char c1 :: nat) \<le> 0x8F)"
      by (auto simp: DecodeRune_def Let_def split: if_splits)
    with EncodeRune_4 [of "of_char c" "of_char c1" "of_char c2" "of_char c3"] cs
    show ?thesis by simp
  qed
qed

lemma DecodeRune_prefix:
  assumes "DecodeRune (c # cs) = (r, n)" and "\<not> (r = RuneError \<and> n = 1)"
    and "\<not> (of_char c :: nat) < 0x80"
  shows "DecodeRune (c # take (n - 1) cs @ q) = (r, n)"
proof (cases "acceptRange (of_char c)")
  case None
  with assms show ?thesis by (simp add: DecodeRune_def)
next
  case (Some t)
  obtain sz lo hi where t: "t = (sz, lo, hi)" by (cases t)
  note ar = Some [unfolded t]
  from assms ar have len: "sz \<le> length (c # cs)"
    by (auto simp: DecodeRune_def Let_def split: if_splits)
  from acceptRange_cases [OF ar] consider
      (two) "sz = 2" | (three) "sz = 3" | (four) "sz = 4" by blast
  then show ?thesis
  proof cases
    case two
    with len obtain c1 cs1 where cs: "cs = c1 # cs1" by (cases cs) auto
    from assms ar two cs show ?thesis
      by (auto simp: DecodeRune_def Let_def split: if_splits)
  next
    case three
    with len obtain c1 c2 cs2 where cs: "cs = c1 # c2 # cs2"
      by (cases cs; cases "tl cs") auto
    from assms ar three cs show ?thesis
      by (auto simp: DecodeRune_def Let_def split: if_splits)
  next
    case four
    with len obtain c1 c2 c3 cs3 where cs: "cs = c1 # c2 # c3 # cs3"
      by (cases cs; cases "tl cs"; cases "tl (tl cs)") auto
    from assms ar four cs show ?thesis
      by (auto simp: DecodeRune_def Let_def split: if_splits)
  qed
qed

subsection \<open>String literals\<close>

lemma less_16_cases:
  "(k::nat) < 16 \<Longrightarrow>
   k = 0 \<or> k = 1 \<or> k = 2 \<or> k = 3 \<or> k = 4 \<or> k = 5 \<or> k = 6 \<or> k = 7
   \<or> k = 8 \<or> k = 9 \<or> k = 10 \<or> k = 11 \<or> k = 12 \<or> k = 13 \<or> k = 14 \<or> k = 15"
  by arith

lemma hexval_hextable: "k < 16 \<Longrightarrow> hexval (hextable ! k) = Some k"
  by (drule less_16_cases) (auto simp: hextable_def hexval_def)

lemma hexval_digits:
  "hexval (CHR ''0'') = Some 0" "hexval (CHR ''2'') = Some 2"
  by (simp_all add: hexval_def)

lemma emit_Some [simp]: "emit pre (Some (s, rest)) = Some (pre @ s, rest)"
  by (simp add: emit_def)

text \<open>An escaped byte is read back as the byte.\<close>

lemma stringLit_escapeByte:
  assumes "(of_char c :: nat) < 0x80" and "\<not> htmlSafe (of_char c)"
  shows "stringLit (escapeByte c @ t) = emit [c] (stringLit t)"
proof -
  have u: "getu4 (CHR ''0'') (CHR ''0'') (hextable ! (of_char c div 16)) (hextable ! (of_char c mod 16))
             = Some (of_char c)"
  proof -
    from assms(1) have "(of_char c :: nat) div 16 < 16" by simp
    then have a: "hexval (hextable ! (of_char c div 16)) = Some (of_char c div 16)"
      by (rule hexval_hextable)
    have b: "hexval (hextable ! (of_char c mod 16)) = Some (of_char c mod 16)"
      by (rule hexval_hextable) simp
    show ?thesis by (simp add: getu4_def a b hexval_digits)
  qed
  from assms(1) have e: "EncodeRune (of_char c) = [c]" "\<not> IsSurrogate (of_char c)"
    by (simp_all add: EncodeRune_def IsSurrogate_def)
  show ?thesis
    by (simp add: escapeByte_def unescape_def u e)
qed

lemma DecodeRune_ascii: "(of_char c :: nat) < 0x80 \<Longrightarrow> DecodeRune (c # cs) = (of_char c, 1)"
  by (simp add: DecodeRune_def)

lemma getu4_202:
  "r = 0x2028 \<or> r = 0x2029 \<Longrightarrow>
   getu4 (CHR ''2'') (CHR ''0'') (CHR ''2'') (hextable ! (r mod 16)) = Some r"
  by (auto simp: getu4_def hexval_def hextable_def)

lemma getu4_fffd: "getu4 (CHR ''f'') (CHR ''f'') (CHR ''f'') (CHR ''d'') = Some RuneError"
  by (simp add: getu4_def hexval_def RuneError_def)

lemma EncodeRune_RuneError: "EncodeRune RuneError = [CHR 0xEF, CHR 0xBF, CHR 0xBD]"
  by (simp add: EncodeRune_def RuneError_def char_of_def bit_Suc_0_iff)

text \<open>
  The string between the quotes is read back with each byte that is not part of a valid
  UTF-8 sequence replaced by U+FFFD.
\<close>

lemma stringLit_appendBytes:
  "stringLit (appendBytes s @ CHR 0x22 # rest) = Some (coerceUTF8 s, rest)"
proof (induction s rule: appendBytes.induct)
  case 1
  show ?case by simp
next
  case (2 c cs)
  show ?case
  proof (cases "(of_char c :: nat) < 0x80")
    case True
    show ?thesis
    proof (cases "htmlSafe (of_char c)")
      case safe: True
      from safe have "c \<noteq> CHR 0x22" "c \<noteq> CHR 0x5C" "\<not> (of_char c :: nat) < 0x20"
        by (auto simp: htmlSafe_def)
      with True safe "2.IH"(1) [OF True safe] show ?thesis
        by simp
    next
      case unsafe: False
      with True "2.IH"(2) [OF True unsafe] stringLit_escapeByte [OF True unsafe]
      show ?thesis by simp
    qed
  next
    case False
    obtain r n where d: "DecodeRune (c # cs) = (r, n)"
      by (cases "DecodeRune (c # cs)")
    show ?thesis
    proof (cases "r = RuneError \<and> n = 1")
      case bad: True
      have eq: "appendBytes (c # cs) =
              [CHR 0x5C, CHR ''u'', CHR ''f'', CHR ''f'', CHR ''f'', CHR ''d''] @ appendBytes cs"
        using False d bad by simp
      have co: "coerceUTF8 (c # cs) = [CHR 0xEF, CHR 0xBF, CHR 0xBD] @ coerceUTF8 cs"
        using False d bad by simp
      have ns: "\<not> IsSurrogate RuneError" by (simp add: IsSurrogate_def RuneError_def)
      from "2.IH"(3) [OF False d [symmetric] bad]
      show ?thesis
        unfolding eq co by (simp add: getu4_fffd ns EncodeRune_RuneError)
    next
      case ok: False
      from DecodeRune_EncodeRune [OF d ok False]
      have enc: "EncodeRune r = c # take (n - 1) cs" and n: "2 \<le> n" "n \<le> Suc (length cs)"
        by (simp_all add: take_Suc_Cons [symmetric] del: take_Suc_Cons)
      have c: "c \<noteq> CHR 0x22" "c \<noteq> CHR 0x5C" "\<not> (of_char c :: nat) < 0x20"
        using False by auto
      have co: "coerceUTF8 (c # cs) = c # take (n - 1) cs @ coerceUTF8 (drop (n - 1) cs)"
        using False d ok n by (cases n) simp_all
      show ?thesis
      proof (cases "r = 0x2028 \<or> r = 0x2029")
        case u: True
        then have ns: "\<not> IsSurrogate r" by (auto simp: IsSurrogate_def)
        note ih = "2.IH"(4) [OF False d [symmetric] ok u]
        have eq: "appendBytes (c # cs) =
                [CHR 0x5C, CHR ''u'', CHR ''2'', CHR ''0'', CHR ''2'', hextable ! (r mod 16)]
                  @ appendBytes (drop (n - 1) cs)"
          using False d ok u by simp
        show ?thesis
          unfolding eq co using ih by (simp add: getu4_202 [OF u] ns enc)
      next
        case nu: False
        note ih = "2.IH"(5) [OF False d [symmetric] ok nu]
        have len: "length (take (n - 1) cs) = n - 1"
          using n by simp
        have pre: "DecodeRune (c # take (n - 1) cs @ q) = (r, n)" for q
          by (rule DecodeRune_prefix [OF d ok False])
        have eq: "appendBytes (c # cs) = c # take (n - 1) cs @ appendBytes (drop (n - 1) cs)"
          using False d ok nu n by (cases n) simp_all
        show ?thesis
          unfolding eq co
          using c False ih len pre [of "appendBytes (drop (n - 1) cs) @ CHR 0x22 # rest"]
          by (simp add: enc)
      qed
    qed
  qed
qed

text \<open>A valid string is left as it is.\<close>

lemma coerceUTF8_valid: "ValidString s \<Longrightarrow> coerceUTF8 s = s"
proof (induction s rule: coerceUTF8.induct)
  case 1
  show ?case by simp
next
  case (2 c cs)
  show ?case
  proof (cases "(of_char c :: nat) < 0x80")
    case True
    with "2.prems" "2.IH"(1) show ?thesis
      by (simp add: DecodeRune_ascii)
  next
    case False
    obtain r n where d: "DecodeRune (c # cs) = (r, n)"
      by (cases "DecodeRune (c # cs)")
    with "2.prems" have ok: "\<not> (r = RuneError \<and> n = 1)" and v: "ValidString (drop (n - 1) cs)"
      by simp_all
    from DecodeRune_EncodeRune [OF d ok False] have n: "2 \<le> n" by simp
    from "2.IH"(3) [OF False d [symmetric] ok v] False d ok n show ?thesis
      by (cases n) simp_all
  qed
qed

subsection \<open>Number literals\<close>

lemma less_10_cases:
  "(k::nat) < 10 \<Longrightarrow>
   k = 0 \<or> k = 1 \<or> k = 2 \<or> k = 3 \<or> k = 4 \<or> k = 5 \<or> k = 6 \<or> k = 7 \<or> k = 8 \<or> k = 9"
  by arith

lemma digit_char:
  assumes "k < 10"
  shows "isDigit (''0123456789'' ! k)" and "of_char (''0123456789'' ! k) - 48 = k"
    and "''0123456789'' ! k = CHR ''0'' \<longleftrightarrow> k = 0"
    and "''0123456789'' ! k \<noteq> CHR ''-''" and "''0123456789'' ! k \<noteq> CHR ''+''"
  using less_10_cases [OF assms] by (auto simp: isDigit_def)

lemma decimal_digits: "list_all isDigit (decimal n)"
proof (induction n rule: decimal.induct)
  case (1 n)
  then show ?case
    by (subst decimal.simps) (simp add: digit_char)
qed

lemma decimal_value: "foldl (\<lambda>a c. a * 10 + (of_char c - 48)) 0 (decimal n) = n"
proof (induction n rule: decimal.induct)
  case (1 n)
  then show ?case
    by (subst decimal.simps) (simp add: digit_char)
qed

text \<open>The first digit is 0 only for the number 0, which prints as the single digit.\<close>

lemma decimal_Cons:
  "\<exists>c t. decimal n = c # t \<and> isDigit c \<and> list_all isDigit t
        \<and> (c = CHR ''0'' \<longrightarrow> n = 0 \<and> t = [])"
proof (induction n rule: decimal.induct)
  case (1 n)
  show ?case
  proof (cases "n < 10")
    case True
    then show ?thesis
      by (subst decimal.simps) (simp add: digit_char)
  next
    case False
    with 1 obtain c t where d: "decimal (n div 10) = c # t" "isDigit c" "list_all isDigit t"
      "c = CHR ''0'' \<longrightarrow> n div 10 = 0 \<and> t = []"
      by blast
    from False have "n div 10 \<noteq> 0" by simp
    with d False show ?thesis
      by (subst decimal.simps) (simp add: digit_char)
  qed
qed

lemma takeWhile_digits:
  "list_all isDigit t \<Longrightarrow> \<not> isDigit r0 \<Longrightarrow>
   takeWhile isDigit (t @ r0 # rest) = t \<and> dropWhile isDigit (t @ r0 # rest) = r0 # rest"
  by (induction t) simp_all

lemma delimiter_simps:
  assumes "delimiter r0"
  shows "\<not> isDigit r0" "r0 \<noteq> CHR ''.''" "r0 \<noteq> CHR ''e''" "r0 \<noteq> CHR ''E''"
  using assms by (auto simp: delimiter_def isDigit_def)

lemma numberLit_decimal:
  assumes "delimiter r0"
  shows "numberLit (decimal n @ r0 # rest) = Some (decimal n, r0 # rest)"
proof -
  from decimal_Cons [of n] obtain c t where d: "decimal n = c # t" "isDigit c"
    "list_all isDigit t" "c = CHR ''0'' \<longrightarrow> n = 0 \<and> t = []"
    by blast
  from d(2) have nm: "c \<noteq> CHR ''-''" by (auto simp: isDigit_def)
  note dl = delimiter_simps [OF assms]
  show ?thesis
  proof (cases "c = CHR ''0''")
    case True
    with d dl show ?thesis
      by (simp add: numberLit_def fracPart_def expPart_def)
  next
    case False
    with d dl nm takeWhile_digits [OF d(3) dl(1), of rest] show ?thesis
      by (simp add: numberLit_def fracPart_def expPart_def)
  qed
qed

lemma numberLit_minus_decimal:
  assumes "delimiter r0" and "0 < n"
  shows "numberLit (CHR ''-'' # decimal n @ r0 # rest) = Some (CHR ''-'' # decimal n, r0 # rest)"
proof -
  from decimal_Cons [of n] assms(2) obtain c t where d: "decimal n = c # t" "isDigit c"
    "list_all isDigit t" "c \<noteq> CHR ''0''"
    by auto
  note dl = delimiter_simps [OF assms(1)]
  from d dl takeWhile_digits [OF d(3) dl(1), of rest] show ?thesis
    by (simp add: numberLit_def fracPart_def expPart_def)
qed

lemma numberLit_fmt_d:
  "delimiter r0 \<Longrightarrow> numberLit (fmt_d w @ r0 # rest) = Some (fmt_d w, r0 # rest)"
  by (simp add: fmt_d_def numberLit_decimal numberLit_minus_decimal)

lemma fmt_d_first:
  "\<exists>c t. fmt_d w = c # t \<and> (c = CHR ''-'' \<or> isDigit c)"
  using decimal_Cons [of "nat (sint w)"] by (auto simp: fmt_d_def)

lemma ParseInt_fmt_d: "ParseInt (fmt_d (w :: goint)) = Some w"
proof (cases "sint w < 0")
  case True
  define m where "m = nat (- sint w)"
  from True have m: "0 < m" "int m = - sint w" by (simp_all add: m_def)
  have "- (2 ^ 63) \<le> sint w" using sint_ge [of w] by simp
  with m have le: "m \<le> 2 ^ 63" by (simp add: m_def)
  have "(word_of_nat m :: goint) = word_of_int (int m)" by simp
  also have "\<dots> = word_of_int (- sint w)" by (simp only: m)
  also have "\<dots> = - w" by simp
  finally have w: "- word_of_nat m = w" by simp
  from decimal_Cons [of m] have ne: "decimal m \<noteq> []" by auto
  from True le show ?thesis
    by (simp add: fmt_d_def ParseInt_def m_def [symmetric] decimal_digits decimal_value ne w)
next
  case False
  define m where "m = nat (sint w)"
  from False have m: "int m = sint w" by (simp add: m_def)
  have "sint w < 2 ^ 63" using sint_lt [of w] by simp
  with m have lt: "m < 2 ^ 63" by (simp add: m_def)
  have "(word_of_nat m :: goint) = word_of_int (int m)" by simp
  also have "\<dots> = word_of_int (sint w)" by (simp only: m)
  also have "\<dots> = w" by simp
  finally have w: "word_of_nat m = w" .
  from decimal_Cons [of m] obtain c t where d: "decimal m = c # t" "isDigit c" by blast
  then have c: "c \<noteq> CHR ''-''" "c \<noteq> CHR ''+''" by (auto simp: isDigit_def)
  have dv: "foldl (\<lambda>a c. a * 10 + (of_char c - 48)) 0 (c # t) = m"
       "list_all isDigit (c # t)"
    using decimal_value [of m] decimal_digits [of m] d by simp_all
  from False lt show ?thesis
    using dv by (simp add: fmt_d_def ParseInt_def m_def [symmetric] d c w Let_def)
qed

subsection \<open>Values\<close>

lemma skipSpace_Cons: "\<not> isSpace c \<Longrightarrow> skipSpace (c # s) = c # s"
  by (simp add: skipSpace_def)

lemma not_isSpace [simp]:
  "\<not> isSpace (CHR ''{'')" "\<not> isSpace (CHR ''}'')" "\<not> isSpace (CHR ''['')" "\<not> isSpace (CHR '']'')"
  "\<not> isSpace (CHR '','')" "\<not> isSpace (CHR '':'')" "\<not> isSpace (CHR 0x22)" "\<not> isSpace (CHR ''-'')"
  by (simp_all add: isSpace_def)

lemma isDigit_not_isSpace: "isDigit c \<Longrightarrow> \<not> isSpace c"
  by (auto simp: isDigit_def isSpace_def)

lemma parseValue_string:
  "parseValue d (appendString s @ rest) = Some (JString (coerceUTF8 s), rest)"
  by (subst parseValue.simps)
     (simp add: appendString_def skipSpace_Cons stringLit_appendBytes)

lemma parseValue_number:
  assumes "delimiter r0"
  shows "parseValue d (fmt_d w @ r0 # rest) = Some (JNumber (fmt_d w), r0 # rest)"
proof -
  from fmt_d_first [of w] obtain c t where f: "fmt_d w = c # t" "c = CHR ''-'' \<or> isDigit c"
    by blast
  then have ns: "\<not> isSpace c" and nc: "c \<noteq> CHR ''{''" "c \<noteq> CHR ''[''" "c \<noteq> CHR 0x22"
    by (auto simp: isDigit_def isSpace_def)
  have "numberLit (c # t @ r0 # rest) = Some (c # t, r0 # rest)"
    using numberLit_fmt_d [OF assms, of w rest] f by simp
  with f ns nc show ?thesis
    by (subst parseValue.simps) (simp add: skipSpace_Cons)
qed

text \<open>One member of an object, followed by a comma or by the closing brace.\<close>

lemma parseMembers_comma:
  assumes k: "\<And>t. stringLit (name @ CHR 0x22 # t) = Some (name, t)"
    and v: "parseValue d (V @ CHR '','' # r4) = Some (v, CHR '','' # r4)"
  shows "parseMembers d (key name @ V @ CHR '','' # r4) =
           (case parseMembers d r4 of None \<Rightarrow> None | Some (ms, r5) \<Rightarrow> Some ((name, v) # ms, r5))"
  by (subst parseMembers.simps) (simp add: key_def skipSpace_Cons k v)

lemma parseMembers_brace:
  assumes k: "\<And>t. stringLit (name @ CHR 0x22 # t) = Some (name, t)"
    and v: "parseValue d (V @ CHR ''}'' # r4) = Some (v, CHR ''}'' # r4)"
  shows "parseMembers d (key name @ V @ CHR ''}'' # r4) = Some ([(name, v)], r4)"
  by (subst parseMembers.simps) (simp add: key_def skipSpace_Cons k v)

lemma appendBytes_names:
  "appendBytes ''ID'' = ''ID''" "appendBytes ''Data'' = ''Data''"
  "appendBytes ''PrevHash'' = ''PrevHash''" "appendBytes ''Transactions'' = ''Transactions''"
  "appendBytes ''Nonce'' = ''Nonce''" "appendBytes ''Hash'' = ''Hash''"
  "appendBytes ''PrevCID'' = ''PrevCID''" "appendBytes ''BlockNumber'' = ''BlockNumber''"
  by (simp_all add: htmlSafe_def)

lemma coerceUTF8_names:
  "coerceUTF8 ''ID'' = ''ID''" "coerceUTF8 ''Data'' = ''Data''"
  "coerceUTF8 ''PrevHash'' = ''PrevHash''" "coerceUTF8 ''Transactions'' = ''Transactions''"
  "coerceUTF8 ''Nonce'' = ''Nonce''" "coerceUTF8 ''Hash'' = ''Hash''"
  "coerceUTF8 ''PrevCID'' = ''PrevCID''" "coerceUTF8 ''BlockNumber'' = ''BlockNumber''"
  by simp_all

lemma stringLit_names:
  "stringLit (''ID'' @ CHR 0x22 # t) = Some (''ID'', t)"
  "stringLit (''Data'' @ CHR 0x22 # t) = Some (''Data'', t)"
  "stringLit (''PrevHash'' @ CHR 0x22 # t) = Some (''PrevHash'', t)"
  "stringLit (''Transactions'' @ CHR 0x22 # t) = Some (''Transactions'', t)"
  "stringLit (''Nonce'' @ CHR 0x22 # t) = Some (''Nonce'', t)"
  "stringLit (''Hash'' @ CHR 0x22 # t) = Some (''Hash'', t)"
  "stringLit (''PrevCID'' @ CHR 0x22 # t) = Some (''PrevCID'', t)"
  "stringLit (''BlockNumber'' @ CHR 0x22 # t) = Some (''BlockNumber'', t)"
  using stringLit_appendBytes [of "''ID''" t]
    stringLit_appendBytes [of "''Data''" t]
    stringLit_appendBytes [of "''PrevHash''" t]
    stringLit_appendBytes [of "''Transactions''" t]
    stringLit_appendBytes [of "''Nonce''" t]
    stringLit_appendBytes [of "''Hash''" t]
    stringLit_appendBytes [of "''PrevCID''" t]
    stringLit_appendBytes [of "''BlockNumber''" t]
  unfolding appendBytes_names coerceUTF8_names by simp_all

lemma parseValue_Transaction:
  assumes "d < maxNestingDepth"
  shows "parseValue d (Marshal_Transaction tx @ rest)
           = Some (toJSON_Transaction (coerce_Transaction tx), rest)"
proof -
  have mod_64_cont: "parseMembers (Suc d) (key ''Data'' @ appendString (Data tx) @ CHR ''}'' # rest)
              = Some ([(''Data'', JString (coerceUTF8 (Data tx)))], rest)"
    by (rule parseMembers_brace [OF stringLit_names(2)])
       (simp add: parseValue_string)
  have mod_32_lead: "parseMembers (Suc d)
              (key ''ID'' @ appendString (ID tx) @ CHR '','' #
                 key ''Data'' @ appendString (Data tx) @ CHR ''}'' # rest)
              = Some ([(''ID'', JString (coerceUTF8 (ID tx))),
                       (''Data'', JString (coerceUTF8 (Data tx)))], rest)"
    by (subst parseMembers_comma [OF stringLit_names(1)])
       (simp_all add: parseValue_string mod_64_cont)
  have k: "key ''ID'' = CHR 0x22 # ''ID'' @ [CHR 0x22, CHR '':'']"
    by (simp add: key_def)
  show ?thesis
    using assms mod_32_lead
    by (subst parseValue.simps)
       (simp add: Marshal_Transaction_def toJSON_Transaction_def coerce_Transaction_def
          skipSpace_Cons k)
qed

lemma parseElements_Transactions:
  assumes "d < maxNestingDepth"
  shows "parseElements d (join '','' (map Marshal_Transaction (tx # txs)) @ CHR '']'' # rest)
           = Some (map (toJSON_Transaction \<circ> coerce_Transaction) (tx # txs), rest)"
proof (induction txs arbitrary: tx)
  case Nil
  show ?case
    by (subst parseElements.simps)
       (simp add: parseValue_Transaction [OF assms] skipSpace_Cons)
next
  case (Cons tx' txs)
  have "parseElements d
          (Marshal_Transaction tx @ CHR '','' #
             join '','' (map Marshal_Transaction (tx' # txs)) @ CHR '']'' # rest)
        = Some (map (toJSON_Transaction \<circ> coerce_Transaction) (tx # tx' # txs), rest)"
    using Cons.IH [of tx']
    by (subst parseElements.simps)
       (simp add: parseValue_Transaction [OF assms] skipSpace_Cons)
  then show ?case by simp
qed

lemma Marshal_Transaction_first: "\<exists>t. Marshal_Transaction tx = CHR ''{'' # t"
  by (simp add: Marshal_Transaction_def)

lemma parseValue_Transactions:
  assumes "Suc d < maxNestingDepth"
  shows "parseValue d (Marshal_Transactions txs @ rest)
           = Some (JArray (map (toJSON_Transaction \<circ> coerce_Transaction) txs), rest)"
proof (cases txs)
  case Nil
  with assms show ?thesis
    by (subst parseValue.simps) (simp add: Marshal_Transactions_def skipSpace_Cons)
next
  case (Cons tx txs')
  from assms have d: "Suc d < maxNestingDepth" "d < maxNestingDepth" by simp_all
  note pe = parseElements_Transactions [OF d(1), of tx txs' rest]
  obtain t where t: "join '','' (Marshal_Transaction tx # map Marshal_Transaction txs') = CHR ''{'' # t"
    using Marshal_Transaction_first [of tx] by (cases txs') auto
  from pe d(2) show ?thesis
    unfolding Cons
    by (subst parseValue.simps) (simp add: Marshal_Transactions_def skipSpace_Cons t)
qed

lemma delimiters [simp]: "delimiter (CHR '','')" "delimiter (CHR ''}'')"
  by (simp_all add: delimiter_def)

lemma max_depth [simp]: "0 < maxNestingDepth" "Suc 0 < maxNestingDepth" "Suc (Suc 0) < maxNestingDepth"
  by (simp_all add: maxNestingDepth_def)

lemma parseValue_Block:
  "parseValue 0 (Marshal b) = Some (toJSON_Block (coerce_Block b), [])"
proof -
  have m6: "parseMembers (Suc 0) (key ''BlockNumber'' @ fmt_d (BlockNumber b) @ CHR ''}'' # [])
              = Some ([(''BlockNumber'', JNumber (fmt_d (BlockNumber b)))], [])"
    by (rule parseMembers_brace [OF stringLit_names(8)]) (simp add: parseValue_number)
  have m5: "parseMembers (Suc 0)
              (key ''PrevCID'' @ appendString (PrevCID b) @ CHR '','' #
               key ''BlockNumber'' @ fmt_d (BlockNumber b) @ CHR ''}'' # [])
              = Some ([(''PrevCID'', JString (coerceUTF8 (PrevCID b))),
                       (''BlockNumber'', JNumber (fmt_d (BlockNumber b)))], [])"
    by (subst parseMembers_comma [OF stringLit_names(7)])
       (simp_all add: parseValue_string m6)
  have mod_8_lead: "parseMembers (Suc 0)
              (key ''Hash'' @ appendString (Hash b) @ CHR '','' #
               key ''PrevCID'' @ appendString (PrevCID b) @ CHR '','' #
               key ''BlockNumber'' @ fmt_d (BlockNumber b) @ CHR ''}'' # [])
              = Some ([(''Hash'', JString (coerceUTF8 (Hash b))), (''PrevCID'', JString (coerceUTF8 (PrevCID b))),
                       (''BlockNumber'', JNumber (fmt_d (BlockNumber b)))], [])"
    by (subst parseMembers_comma [OF stringLit_names(6)])
       (simp_all add: parseValue_string m5)
  have mod_16_lead: "parseMembers (Suc 0)
              (key ''Nonce'' @ fmt_d (Nonce b) @ CHR '','' #
               key ''Hash'' @ appendString (Hash b) @ CHR '','' #
               key ''PrevCID'' @ appendString (PrevCID b) @ CHR '','' #
               key ''BlockNumber'' @ fmt_d (BlockNumber b) @ CHR ''}'' # [])
              = Some ([(''Nonce'', JNumber (fmt_d (Nonce b))),
                       (''Hash'', JString (coerceUTF8 (Hash b))), (''PrevCID'', JString (coerceUTF8 (PrevCID b))),
                       (''BlockNumber'', JNumber (fmt_d (BlockNumber b)))], [])"
    by (subst parseMembers_comma [OF stringLit_names(5)])
       (simp_all add: parseValue_number mod_8_lead)
  have mod_64_cont: "parseMembers (Suc 0)
              (key ''Transactions'' @ Marshal_Transactions (Transactions b) @ CHR '','' #
               key ''Nonce'' @ fmt_d (Nonce b) @ CHR '','' #
               key ''Hash'' @ appendString (Hash b) @ CHR '','' #
               key ''PrevCID'' @ appendString (PrevCID b) @ CHR '','' #
               key ''BlockNumber'' @ fmt_d (BlockNumber b) @ CHR ''}'' # [])
              = Some ([(''Transactions'', JArray (map (toJSON_Transaction \<circ> coerce_Transaction) (Transactions b))),
                       (''Nonce'', JNumber (fmt_d (Nonce b))),
                       (''Hash'', JString (coerceUTF8 (Hash b))), (''PrevCID'', JString (coerceUTF8 (PrevCID b))),
                       (''BlockNumber'', JNumber (fmt_d (BlockNumber b)))], [])"
    by (subst parseMembers_comma [OF stringLit_names(4)])
       (simp_all add: parseValue_Transactions mod_16_lead)
  have mod_32_lead: "parseMembers (Suc 0)
              (key ''PrevHash'' @ appendString (PrevHash b) @ CHR '','' #
               key ''Transactions'' @ Marshal_Transactions (Transactions b) @ CHR '','' #
               key ''Nonce'' @ fmt_d (Nonce b) @ CHR '','' #
               key ''Hash'' @ appendString (Hash b) @ CHR '','' #
               key ''PrevCID'' @ appendString (PrevCID b) @ CHR '','' #
               key ''BlockNumber'' @ fmt_d (BlockNumber b) @ CHR ''}'' # [])
              = Some ([(''PrevHash'', JString (coerceUTF8 (PrevHash b))),
                       (''Transactions'', JArray (map (toJSON_Transaction \<circ> coerce_Transaction) (Transactions b))),
                       (''Nonce'', JNumber (fmt_d (Nonce b))),
                       (''Hash'', JString (coerceUTF8 (Hash b))), (''PrevCID'', JString (coerceUTF8 (PrevCID b))),
                       (''BlockNumber'', JNumber (fmt_d (BlockNumber b)))], [])"
    by (subst parseMembers_comma [OF stringLit_names(3)])
       (simp_all add: parseValue_string mod_64_cont)
  have k: "key ''PrevHash'' = CHR 0x22 # ''PrevHash'' @ [CHR 0x22, CHR '':'']"
    by (simp add: key_def)
  show ?thesis
    using mod_32_lead
    by (subst parseValue.simps)
       (simp add: Marshal_def toJSON_Block_def coerce_Block_def skipSpace_Cons k)
qed

subsection \<open>Storing, and the round trip\<close>

lemma storeTransaction_toJSON: "storeTransaction (toJSON_Transaction tx) cur = Some tx"
  by (simp add: toJSON_Transaction_def storeTransactionField_def findField_def)

lemma storeElements_toJSON: "storeElements (map toJSON_Transaction txs) backing = Some txs"
  by (induction txs arbitrary: backing) (simp_all add: storeTransaction_toJSON)

lemma storeSlice_toJSON:
  "storeSlice (JArray (map toJSON_Transaction txs)) [] = Some (txs, [])"
  by (cases txs) (simp_all add: storeElements_toJSON storeTransaction_toJSON)

lemma storeMembers_toJSON:
  "toJSON_Block b = JObject ms \<Longrightarrow> storeMembers storeBlockField ms (zeroBlock, []) = Some (b, [])"
  by (cases b)
     (auto simp: toJSON_Block_def storeBlockField_def findField_def zeroBlock_def
        ParseInt_fmt_d storeElements_toJSON)

text \<open>
  What the receiver decodes from the text the sender wrote: the block, with every string
  coerced to valid UTF-8.
\<close>

lemma Unmarshal_Marshal: "json_Unmarshal (Marshal b) = Some (coerce_Block b)"
proof -
  obtain ms where ms: "toJSON_Block (coerce_Block b) = JObject ms"
    by (simp add: toJSON_Block_def)
  have "parseJSON (Marshal b) = Some (JObject ms)"
    by (simp add: parseJSON_def parseValue_Block ms skipSpace_def)
  with storeMembers_toJSON [OF ms] show ?thesis
    by (simp add: json_Unmarshal_def)
qed

lemma coerce_Transaction_valid: "ValidTransaction tx \<Longrightarrow> coerce_Transaction tx = tx"
  by (simp add: ValidTransaction_def coerce_Transaction_def coerceUTF8_valid)

lemma coerce_Block_valid: "ValidBlock b \<Longrightarrow> coerce_Block b = b"
proof -
  assume v: "ValidBlock b"
  then have "map coerce_Transaction (Transactions b) = Transactions b"
    by (simp add: ValidBlock_def list_all_iff coerce_Transaction_valid map_idI)
  with v show ?thesis
    by (simp add: coerce_Block_def ValidBlock_def coerceUTF8_valid)
qed

lemma ValidBlock_utf8_block: "ValidBlock utf8_block"
  by (simp add: ValidBlock_def utf8_block_def ValidTransaction_def DecodeRune_def
        acceptRange_def RuneError_def)

lemma ValidString_ascii: "list_all (\<lambda>c. (of_char c :: nat) < 0x80) s \<Longrightarrow> ValidString s"
  by (induction s) (simp_all add: DecodeRune_ascii RuneError_def)

lemma ValidBlock_demo_blocks:
  "ValidBlock demo_block" "ValidBlock block_empty_id" "ValidBlock block_no_tx"
  by (simp_all add: ValidBlock_def ValidTransaction_def ValidString_ascii demo_block_def
        block_empty_id_def block_no_tx_def tx_A_def tx_B_def tx_C_def list_all_iff
        del: ValidString.simps)

text \<open>The receiver of the concrete inputs decodes what a sender writes for the three blocks.\<close>

lemma demo_decode:
  "Unmarshal demo_ext (Marshal demo_block) = Some demo_block"
  "Unmarshal demo_ext (Marshal block_empty_id) = Some block_empty_id"
  "Unmarshal demo_ext (Marshal block_no_tx) = Some block_no_tx"
  "Unmarshal five_ext = Unmarshal demo_ext"
  by (simp_all add: demo_ext_def five_ext_def Unmarshal_Marshal coerce_Block_valid
        ValidBlock_demo_blocks)

subsection \<open>The parsers consume input\<close>

lemma emit_SomeD: "emit pre res = Some (s, r) \<Longrightarrow> \<exists>s'. res = Some (s', r)"
  by (auto simp: emit_def split: option.splits)

lemma stringLit_shorter: "stringLit s = Some (str, r) \<Longrightarrow> length r < length s"
proof (induction s arbitrary: str rule: length_induct)
  case (1 s)
  have step: "length r < length s" if "stringLit t = Some (s', r)" "length t < length s" for t s'
    using 1(1) that by (meson less_trans)
  show ?case
  proof (cases s)
    case Nil
    with 1(2) show ?thesis by simp
  next
    case (Cons c cs)
    from 1(2) [unfolded Cons] show ?thesis
      unfolding Cons
      apply (simp split: if_splits list.splits option.splits prod.splits)
           apply (auto dest!: emit_SomeD)
           apply (drule step; simp add: Cons)+
      done
  qed
qed

lemma skipSpace_length: "length (skipSpace s) \<le> length s"
  by (simp add: skipSpace_def length_dropWhile_le)

lemma skipSpace_ConsD: "skipSpace s = c # cs \<Longrightarrow> length cs < length s"
  using skipSpace_length [of s] by simp

lemma dropWhile_length_le: "length (dropWhile P s) \<le> length s"
  by (rule length_dropWhile_le)

lemma expPart_shorter: "expPart acc s = Some (lit, r) \<Longrightarrow> length r \<le> length s"
  using dropWhile_length_le [of isDigit "tl s"] dropWhile_length_le [of isDigit "tl (tl s)"]
  by (auto simp: expPart_def split: list.splits if_splits prod.splits)

lemma fracPart_shorter: "fracPart acc s = Some (lit, r) \<Longrightarrow> length r \<le> length s"
  using dropWhile_length_le [of isDigit "tl s"]
  by (auto simp: fracPart_def split: list.splits if_splits dest!: expPart_shorter)

lemma numberLit_shorter:
  "c = CHR ''-'' \<or> isDigit c \<Longrightarrow> numberLit (c # cs) = Some (lit, r) \<Longrightarrow> length r < Suc (length cs)"
  using dropWhile_length_le [of isDigit "tl cs"] dropWhile_length_le [of isDigit cs]
  by (auto simp: numberLit_def split: list.splits if_splits dest!: fracPart_shorter)

text \<open>Each of the three parsers consumes input.\<close>

lemma parse_shorter:
  "parseValue d s = Some (v, r) \<Longrightarrow> length r < length s"
  "parseElements d s = Some (vs, r') \<Longrightarrow> length r' < length s"
  "parseMembers d s = Some (ms, r'') \<Longrightarrow> length r'' < length s"
proof (induction d s and d s and d s arbitrary: v r and vs r' and ms r''
       rule: parseValue_parseElements_parseMembers.induct)
  case (1 d s)
  obtain c cs where sk: "skipSpace s = c # cs"
    using "1.prems" by (subst (asm) parseValue.simps) (auto split: list.splits)
  note len = skipSpace_ConsD [OF sk]
  consider (obj) "c = CHR ''{''" | (arr) "c \<noteq> CHR ''{''" "c = CHR ''[''"
    | (str) "c \<noteq> CHR ''{''" "c \<noteq> CHR ''[''" "c = CHR 0x22"
    | (num) "c \<noteq> CHR ''{''" "c \<noteq> CHR ''[''" "c \<noteq> CHR 0x22" "c = CHR ''-'' \<or> isDigit c"
    | (lit) "c \<noteq> CHR ''{''" "c \<noteq> CHR ''[''" "c \<noteq> CHR 0x22" "\<not> (c = CHR ''-'' \<or> isDigit c)"
    by blast
  then show ?case
  proof cases
    case obj
    with "1.prems" sk have nd: "\<not> maxNestingDepth \<le> d"
      by (subst (asm) parseValue.simps) (auto split: if_splits)
    from "1.prems" sk obj nd obtain c1 cs1 where sk1: "skipSpace cs = c1 # cs1"
      by (subst (asm) parseValue.simps) (auto split: list.splits)
    note len1 = skipSpace_length [of cs]
    show ?thesis
    proof (cases "c1 = CHR ''}''")
      case True
      with "1.prems" sk obj nd sk1 len len1 show ?thesis
        by (subst (asm) parseValue.simps) auto
    next
      case False
      with "1.prems" sk obj nd sk1 obtain ms' where
        "parseMembers (Suc d) (c1 # cs1) = Some (ms', r)"
        by (subst (asm) parseValue.simps) (auto split: option.splits)
      from "1.IH"(1) [OF sk obj nd sk1 False this] sk1 len len1 show ?thesis
        by simp
    qed
  next
    case arr
    with "1.prems" sk have nd: "\<not> maxNestingDepth \<le> d"
      by (subst (asm) parseValue.simps) (auto split: if_splits)
    from "1.prems" sk arr nd obtain c1 cs1 where sk1: "skipSpace cs = c1 # cs1"
      by (subst (asm) parseValue.simps) (auto split: list.splits)
    note len1 = skipSpace_length [of cs]
    show ?thesis
    proof (cases "c1 = CHR '']''")
      case True
      with "1.prems" sk arr nd sk1 len len1 show ?thesis
        by (subst (asm) parseValue.simps) auto
    next
      case False
      with "1.prems" sk arr nd sk1 obtain vs' where
        "parseElements (Suc d) (c1 # cs1) = Some (vs', r)"
        by (subst (asm) parseValue.simps) (auto split: option.splits)
      from "1.IH"(2) [OF sk arr nd sk1 False this] sk1 len len1 show ?thesis
        by simp
    qed
  next
    case str
    with "1.prems" sk obtain st where "stringLit cs = Some (st, r)"
      by (subst (asm) parseValue.simps) (auto split: option.splits)
    from stringLit_shorter [OF this] len show ?thesis by simp
  next
    case num
    with "1.prems" sk obtain l where "numberLit (c # cs) = Some (l, r)"
      by (subst (asm) parseValue.simps) (auto split: option.splits)
    from numberLit_shorter [OF num(4) this] len show ?thesis by simp
  next
    case lit
    with "1.prems" sk len show ?thesis
      by (subst (asm) parseValue.simps) (auto split: if_splits)
  qed
next
  case (2 d s)
  from "2.prems" obtain v r where pv: "parseValue d s = Some (v, r)"
    by (subst (asm) parseElements.simps) (auto split: option.splits)
  note l1 = "2.IH"(1) [OF pv]
  from "2.prems" pv obtain c r1 where sk: "skipSpace r = c # r1"
    by (subst (asm) parseElements.simps) (auto split: list.splits)
  note l2 = skipSpace_ConsD [OF sk]
  show ?case
  proof (cases "c = CHR '',''")
    case True
    with "2.prems" pv sk have g: "length r1 < length s"
      by (subst (asm) parseElements.simps) (auto split: if_splits)
    with "2.prems" pv sk True obtain vs' where
      "parseElements d r1 = Some (vs', r')"
      by (subst (asm) parseElements.simps) (auto split: option.splits)
    from "2.IH"(2) [OF pv refl sk True g this] g show ?thesis by simp
  next
    case False
    with "2.prems" pv sk l1 l2 show ?thesis
      by (subst (asm) parseElements.simps) (auto split: if_splits)
  qed
next
  case (3 d s)
  from "3.prems" obtain q s1 where sk: "skipSpace s = q # s1"
    by (subst (asm) parseMembers.simps) (auto split: list.splits)
  from "3.prems" sk have q: "\<not> q \<noteq> CHR 0x22"
    by (subst (asm) parseMembers.simps) (auto split: if_splits)
  from "3.prems" sk q obtain k r1 where sl: "stringLit s1 = Some (k, r1)"
    by (subst (asm) parseMembers.simps) (auto split: option.splits)
  from "3.prems" sk q sl obtain c r2 where sk2: "skipSpace r1 = c # r2"
    by (subst (asm) parseMembers.simps) (auto split: list.splits)
  from "3.prems" sk q sl sk2 have g: "\<not> (c \<noteq> CHR '':'' \<or> \<not> length r2 < length s)"
    by (subst (asm) parseMembers.simps) (auto split: if_splits)
  from "3.prems" sk q sl sk2 g obtain v r3 where pv: "parseValue d r2 = Some (v, r3)"
    by (subst (asm) parseMembers.simps) (auto split: option.splits)
  note l3 = "3.IH"(1) [OF sk q sl refl sk2 g pv]
  from "3.prems" sk q sl sk2 g pv obtain c3 r4 where sk3: "skipSpace r3 = c3 # r4"
    by (subst (asm) parseMembers.simps) (auto split: list.splits)
  note l4 = skipSpace_ConsD [OF sk3]
  show ?case
  proof (cases "c3 = CHR '',''")
    case True
    with "3.prems" sk q sl sk2 g pv sk3 have g2: "length r4 < length s"
      by (subst (asm) parseMembers.simps) (auto split: if_splits)
    with "3.prems" sk q sl sk2 g pv sk3 True obtain ms' where
      "parseMembers d r4 = Some (ms', r'')"
      by (subst (asm) parseMembers.simps) (auto split: option.splits)
    from "3.IH"(2) [OF sk q sl refl sk2 g pv refl sk3 True g2 this] g2 show ?thesis by simp
  next
    case False
    with "3.prems" sk q sl sk2 g pv sk3 l3 l4 show ?thesis
      by (subst (asm) parseMembers.simps) (auto split: if_splits)
  qed
qed

text \<open>
  So the tests on the lengths in \<open>parseElements\<close> and \<open>parseMembers\<close> never fail: the
  two functions satisfy the equations without them.
\<close>

lemma parseElements_unguarded:
  "parseElements d s =
     (case parseValue d s of
        None \<Rightarrow> None
      | Some (v, r) \<Rightarrow>
          (case skipSpace r of
             [] \<Rightarrow> None
           | c # r1 \<Rightarrow>
               if c = CHR '','' then
                 (case parseElements d r1 of
                    None \<Rightarrow> None
                  | Some (vs, r2) \<Rightarrow> Some (v # vs, r2))
               else if c = CHR '']'' then Some ([v], r1)
               else None))"
proof -
  have "length r1 < length s" if "parseValue d s = Some (v, r)" "skipSpace r = c # r1" for v r c r1
    using parse_shorter(1) [OF that(1)] skipSpace_ConsD [OF that(2)] by simp
  then show ?thesis
    by (subst parseElements.simps) (auto split: option.splits list.splits)
qed

lemma parseMembers_unguarded:
  "parseMembers d s =
     (case skipSpace s of
        [] \<Rightarrow> None
      | q # s1 \<Rightarrow>
          if q \<noteq> CHR 0x22 then None
          else
            (case stringLit s1 of
               None \<Rightarrow> None
             | Some (k, r1) \<Rightarrow>
                 (case skipSpace r1 of
                    [] \<Rightarrow> None
                  | c # r2 \<Rightarrow>
                      if c \<noteq> CHR '':'' then None
                      else
                        (case parseValue d r2 of
                           None \<Rightarrow> None
                         | Some (v, r3) \<Rightarrow>
                             (case skipSpace r3 of
                                [] \<Rightarrow> None
                              | c3 # r4 \<Rightarrow>
                                  if c3 = CHR '','' then
                                    (case parseMembers d r4 of
                                       None \<Rightarrow> None
                                     | Some (ms, r5) \<Rightarrow> Some ((k, v) # ms, r5))
                                  else if c3 = CHR ''}'' then Some ([(k, v)], r4)
                                  else None)))))"
proof -
  have a: "length r2 < length s"
    if "skipSpace s = q # s1" "stringLit s1 = Some (k, r1)" "skipSpace r1 = c # r2"
    for q s1 k r1 c r2
    using skipSpace_ConsD [OF that(1)] stringLit_shorter [OF that(2)] skipSpace_ConsD [OF that(3)]
    by simp
  have b: "length r4 < length s"
    if "skipSpace s = q # s1" "stringLit s1 = Some (k, r1)" "skipSpace r1 = c # r2"
      "parseValue d r2 = Some (v, r3)" "skipSpace r3 = c3 # r4"
    for q s1 k r1 c r2 v r3 c3 r4
    using a [OF that(1-3)] parse_shorter(1) [OF that(4)] skipSpace_ConsD [OF that(5)]
    by simp
  show ?thesis
    by (subst parseMembers.simps) (auto split: option.splits list.splits dest: a b)
qed

section \<open>The claims\<close>






text \<open>
  C3, as the specification states it, fails: when \<open>uploadBlockToIPFS\<close> returns an error
  the code runs \<open>continue\<close> (line 190), which skips the broadcast. With an upload that
  always fails and a stop signal at the fifth poll, a block is mined (the counter
  \<open>minedBlocks\<close> is 1), yet nothing is sent to the one connected peer.
\<close>

theorem failed_upload_counterexample:
  "connectedMiners failing_ext = [''127.0.0.1'']
   \<and> ipfsAdd failing_ext 0 (fmt_v_Block (demo_block\<lparr>PrevCID := ''-1''\<rparr>)) = None
   \<and> map_option fst (startMining 4 failing_ext ''-1'' ''-1'' demo_node) = Some Stopped
   \<and> map_option (minedBlocks \<circ> snd) (startMining 4 failing_ext ''-1'' ''-1'' demo_node) = Some 1
   \<and> map_option (sent \<circ> snd) (startMining 4 failing_ext ''-1'' ''-1'' demo_node) = Some []
   \<and> map_option (newBlock \<circ> snd) (startMining 4 failing_ext ''-1'' ''-1'' demo_node) = Some []"
  unfolding failing_run by (simp add: demo_node_def failing_ext_def demo_ext_def)

text \<open>
  C3, amended. When the upload of a mined block fails, the block is neither sent to any
  peer nor put on \<open>newBlock\<close>, and the mining loop is not left: it goes on with the same
  nonce. A block that is emitted carries the identifier that a successful upload of it
  returned.
\<close>

theorem failed_upload_not_broadcast:
  "(\<not> stopReady x (polls st) \<and> SetBytes (Sum256 x (blockData ph txs nonce)) < target
     \<and> ipfsAdd x (adds st)
          (fmt_v_Block \<lparr>PrevHash = ph, Transactions = txs, Nonce = nonce,
                        Hash = EncodeToString (Sum256 x (blockData ph txs nonce)),
                        PrevCID = pc, BlockNumber = minedBlocks st\<rparr>) = None
     \<longrightarrow> (\<exists>st1. pow_iter x ph pc txs nonce st = (Continue nonce, st1)
               \<and> sent st1 = sent st \<and> newBlock st1 = newBlock st))
   \<and> (startMining fuel x ph pc st = Some (Emitted b, st')
     \<longrightarrow> (\<exists>k. ipfsAdd x k (fmt_v_Block (b\<lparr>PrevCID := pc\<rparr>)) = Some (PrevCID b)))"
  by (auto simp: pow_iter_def Let_def uploadBlockToIPFS_def startMining_def
           split: if_splits dest: pow_loop_cid)

theorem failed_upload_not_broadcast_witness:
  "\<not> stopReady failing_ext (polls searching_node)
   \<and> SetBytes (Sum256 failing_ext (blockData ''-1'' [tx_A, tx_B, tx_C] 2)) < target
   \<and> ipfsAdd failing_ext (adds searching_node)
        (fmt_v_Block \<lparr>PrevHash = ''-1'', Transactions = [tx_A, tx_B, tx_C], Nonce = 2,
                      Hash = EncodeToString (Sum256 failing_ext (blockData ''-1'' [tx_A, tx_B, tx_C] 2)),
                      PrevCID = ''-1'', BlockNumber = minedBlocks searching_node\<rparr>) = None
   \<and> (\<exists>st1. pow_iter failing_ext ''-1'' ''-1'' [tx_A, tx_B, tx_C] 2 searching_node = (Continue 2, st1)
         \<and> sent st1 = sent searching_node \<and> newBlock st1 = newBlock searching_node)
   \<and> startMining 3 demo_ext ''-1'' ''-1'' demo_node = Some (Emitted demo_block, mined_node)
   \<and> (\<exists>k. ipfsAdd demo_ext k (fmt_v_Block (demo_block\<lparr>PrevCID := ''-1''\<rparr>)) = Some (PrevCID demo_block))"
proof -
  have a: "\<not> stopReady failing_ext (polls searching_node)"
    by (simp add: failing_ext_def searching_node_def)
  have b: "SetBytes (Sum256 failing_ext (blockData ''-1'' [tx_A, tx_B, tx_C] 2)) < target"
    by (simp add: failing_ext_def demo_ext_simps demo_digests digest_00_below)
  have c: "ipfsAdd failing_ext k d = None" for k d
    by (simp add: failing_ext_def)
  from a b c
    failed_upload_not_broadcast [of failing_ext searching_node "''-1''" "[tx_A, tx_B, tx_C]" 2 "''-1''"]
    failed_upload_not_broadcast [of demo_ext demo_node "''-1''" "[tx_A, tx_B, tx_C]" 2 "''-1''" 3 demo_block mined_node]
    demo_run
  show ?thesis by blast
qed

text \<open>
  C6. Every block that \<open>startMining\<close> emits holds exactly three transactions: the first
  three of the queue, in the order of the queue.
\<close>

theorem mined_block_three_transactions:
  assumes "startMining fuel x prevHash prevCID st = Some (Emitted b, st')"
  shows "Transactions b = take 3 (transactionBuffer st) \<and> length (Transactions b) = 3"
  using assms
  by (auto simp: startMining_def Let_def split: if_splits dest!: pow_loop_Emitted)

theorem mined_block_three_transactions_witness:
  "startMining 3 demo_ext ''-1'' ''-1'' demo_node = Some (Emitted demo_block, mined_node)
   \<and> Transactions demo_block = [tx_A, tx_B, tx_C]
   \<and> length (Transactions demo_block) = 3"
  using mined_block_three_transactions [OF demo_run] demo_run
  by (simp add: demo_node_def)



text \<open>
  C4. \<open>validateBlock\<close> returns false for a received block in which some transaction has
  an empty \<open>ID\<close>, and the receiver then leaves the state, with the vote map, as it is.
  \<open>validateBlock\<close> also returns false for a block whose \<open>PrevHash\<close> differs from an
  expected previous hash other than \<open>"-1"\<close>; votes are counted only by the receiver,
  and only after \<open>validateBlock\<close> has returned true.
\<close>

theorem validateBlock_rejects:
  assumes "Unmarshal x data = Some block"
  shows "((\<exists>tx \<in> set (Transactions block). ID tx = [])
            \<longrightarrow> \<not> validateBlock x data prevHash tgt \<and> receiveBlock x data st = st)
       \<and> (prevHash \<noteq> ''-1'' \<and> PrevHash block \<noteq> prevHash
            \<longrightarrow> \<not> validateBlock x data prevHash tgt)
       \<and> (\<not> validateBlock x data ''-1'' target \<longrightarrow> receiveBlock x data st = st)"
  using assms
  by (auto simp: validateBlock_def receiveBlock_def validTransactions_iff)

theorem validateBlock_rejects_witness:
  "Unmarshal demo_ext (Marshal block_empty_id) = Some block_empty_id
   \<and> (\<exists>tx \<in> set (Transactions block_empty_id). ID tx = [])
   \<and> \<not> validateBlock demo_ext (Marshal block_empty_id) ''-1'' target
   \<and> receiveBlock demo_ext (Marshal block_empty_id) demo_node = demo_node
   \<and> Unmarshal demo_ext (Marshal demo_block) = Some demo_block
   \<and> ''00ab'' \<noteq> ''-1'' \<and> PrevHash demo_block \<noteq> ''00ab''
   \<and> \<not> validateBlock demo_ext (Marshal demo_block) ''00ab'' target"
proof -
  have a: "Unmarshal demo_ext (Marshal block_empty_id) = Some block_empty_id"
    by (rule demo_decode)
  have b: "Unmarshal demo_ext (Marshal demo_block) = Some demo_block"
    by (rule demo_decode)
  have c: "\<exists>tx \<in> set (Transactions block_empty_id). ID tx = []"
    by (simp add: block_empty_id_def)
  have d: "PrevHash demo_block \<noteq> ''00ab''"
    by (simp add: demo_block_def)
  from validateBlock_rejects [OF a, of "''-1''" target demo_node]
    validateBlock_rejects [OF b, of "''00ab''" target demo_node] a b c d
  show ?thesis by simp
qed

text \<open>
  C5. When the receiver counts a vote for a block hash, it finds the quorum reached
  exactly when the new count of that hash is strictly greater than the number of
  connected miners divided by two, with integer division. With five peers the third vote
  reaches the quorum and the second does not.
\<close>

theorem quorum_threshold:
  assumes "validateBlock x data ''-1'' target"
  shows "votes (receiveBlock x data st) (getBlockHash x data) = votes st (getBlockHash x data) + 1
       \<and> accepted (receiveBlock x data st) =
           (if sint (votes (receiveBlock x data st) (getBlockHash x data))
                 > int (length (connectedMiners x)) div 2
            then accepted st @ [getBlockHash x data] else accepted st)"
  using assms
  by (auto simp: validateBlock_def receiveBlock_def votes_def Let_def split: option.splits)

theorem quorum_threshold_witness:
  "validateBlock five_ext (Marshal demo_block) ''-1'' target
   \<and> length (connectedMiners five_ext) = 5
   \<and> accepted (receiveBlock five_ext (Marshal demo_block) (receiveBlock five_ext (Marshal demo_block) demo_node)) = []
   \<and> accepted (receiveBlock five_ext (Marshal demo_block)
        (receiveBlock five_ext (Marshal demo_block) (receiveBlock five_ext (Marshal demo_block) demo_node)))
       = [getBlockHash five_ext (Marshal demo_block)]"
proof -
  have v: "validateBlock five_ext (Marshal demo_block) ''-1'' target"
    by (simp add: validateBlock_def demo_decode) (simp add: demo_block_def tx_A_def tx_B_def tx_C_def)
  have n: "length (connectedMiners five_ext) = 5"
    by (simp add: five_ext_def)
  have z: "votes demo_node (getBlockHash five_ext (Marshal demo_block)) = 0" "accepted demo_node = []"
    by (simp_all add: votes_def demo_node_def)
  note q = quorum_threshold [OF v]
  from q [of demo_node] q [of "receiveBlock five_ext (Marshal demo_block) demo_node"]
    q [of "receiveBlock five_ext (Marshal demo_block) (receiveBlock five_ext (Marshal demo_block) demo_node)"]
    v n z
  show ?thesis by simp
qed

text \<open>
  C8. The transaction that intake creates from a result string has, as its \<open>ID\<close>, the hex
  digest of \<open>sha256.Sum256\<close> over that string, which is its \<open>Data\<close>; whatever a line of
  input appends to the queue has an \<open>ID\<close> computed from its \<open>Data\<close> in this way.
\<close>

theorem intake_transaction_id:
  "generateTransactionID x data = EncodeToString (Sum256 x data)
   \<and> (\<exists>new. transactionBuffer (handleMessage x message st) = transactionBuffer st @ new
         \<and> (\<forall>tx \<in> set new. ID tx = EncodeToString (Sum256 x (Data tx))))
   \<and> (Split (CHR '' '') message = [p0, p1] \<and> ipfsCat x p1 = Some dataFile
        \<and> ipfsCat x p0 = Some scriptFile \<and> runScript x scriptFile dataFile = Some result
       \<longrightarrow> transactionBuffer (handleMessage x message st) =
            transactionBuffer st @ [\<lparr>ID = EncodeToString (Sum256 x result), Data = result\<rparr>])"
  by (auto simp: generateTransactionID_def handleMessage_def Let_def
           split: list.splits option.splits)

theorem intake_transaction_id_witness:
  "Split (CHR '' '') ''scriptRefA dataRefA'' = [''scriptRefA'', ''dataRefA'']
   \<and> ipfsCat demo_ext ''dataRefA'' = Some ''1''
   \<and> ipfsCat demo_ext ''scriptRefA'' = Some ''print(1)''
   \<and> runScript demo_ext ''print(1)'' ''1'' = Some ''result-A''
   \<and> transactionBuffer (handleMessage demo_ext ''scriptRefA dataRefA'' mined_node) =
       [tx_D, tx_E, tx_F, \<lparr>ID = replicate 64 (CHR ''f''), Data = ''result-A''\<rparr>]"
proof -
  have a: "Split (CHR '' '') ''scriptRefA dataRefA'' = [''scriptRefA'', ''dataRefA'']"
    by simp
  have b: "ipfsCat demo_ext ''dataRefA'' = Some ''1''"
    "ipfsCat demo_ext ''scriptRefA'' = Some ''print(1)''"
    "runScript demo_ext ''print(1)'' ''1'' = Some ''result-A''"
    by (simp_all add: demo_ext_def)
  have c: "Sum256 demo_ext ''result-A'' = replicate 32 255"
    by (simp add: demo_ext_def)
  have d: "transactionBuffer mined_node = [tx_D, tx_E, tx_F]"
    by (simp add: mined_node_def demo_node_def)
  from intake_transaction_id
    [of demo_ext "''result-A''" "''scriptRefA dataRefA''" mined_node "''scriptRefA''"
        "''dataRefA''" "''1''" "''print(1)''" "''result-A''"]
    a b c d hex_ff
  show ?thesis by simp
qed

text \<open>
  C9, as the specification states it, fails: \<open>json.Marshal\<close> writes a byte that is not
  part of a valid UTF-8 sequence as an escape of U+FFFD, and the receiver reads the three
  bytes of U+FFFD back. A transaction whose \<open>Data\<close> is the single byte \<open>0xff\<close> (the
  output of a script is any bytes) comes back with another \<open>Data\<close>.
\<close>

theorem round_trip_counterexample:
  "json_Unmarshal (Marshal latin1_block)
     = Some (latin1_block\<lparr>Transactions := [\<lparr>ID = ''a1'', Data = [CHR 0xEF, CHR 0xBF, CHR 0xBD]\<rparr>]\<rparr>)
   \<and> json_Unmarshal (Marshal latin1_block) \<noteq> Some latin1_block"
  by (simp add: Unmarshal_Marshal coerce_Block_def coerce_Transaction_def latin1_block_def
        DecodeRune_def acceptRange_def)

text \<open>
  C9, amended. For every block whose strings (\<open>PrevHash\<close>, \<open>Hash\<close>, \<open>PrevCID\<close> and the
  \<open>ID\<close> and \<open>Data\<close> of each transaction) are valid UTF-8, deserialising the
  serialised block gives the block back, field for field, \<open>PrevCID\<close> and \<open>BlockNumber\<close>
  included.
\<close>

theorem round_trip_valid_utf8:
  assumes "ValidBlock b"
  shows "json_Unmarshal (Marshal b) = Some b"
  using assms by (simp add: Unmarshal_Marshal coerce_Block_valid)

theorem round_trip_valid_utf8_witness:
  "ValidBlock utf8_block \<and> json_Unmarshal (Marshal utf8_block) = Some utf8_block"
  using round_trip_valid_utf8 [OF ValidBlock_utf8_block] ValidBlock_utf8_block
  by simp

text \<open>
  C10. \<open>validateBlock\<close> returns true exactly when the input deserialises into a block,
  the expected previous hash is \<open>"-1"\<close> or the \<open>PrevHash\<close> of the block, and no listed
  transaction has an empty \<open>ID\<close>. Its result depends neither on the target nor on the
  \<open>Hash\<close> and \<open>Nonce\<close> of the block nor on the number of transactions: the receiver
  counts a vote for every block that deserialises and lists no empty \<open>ID\<close>, also for one
  with no transaction at all and a \<open>Hash\<close> that is no digest.
\<close>

theorem validateBlock_iff:
  "(validateBlock x data prevHash tgt \<longleftrightarrow>
      (\<exists>block. Unmarshal x data = Some block
         \<and> (prevHash = ''-1'' \<or> PrevHash block = prevHash)
         \<and> (\<forall>tx \<in> set (Transactions block). ID tx \<noteq> [])))
   \<and> (Unmarshal x data = Some block \<and> Unmarshal x data' = Some (block\<lparr>Nonce := n, Hash := h\<rparr>)
        \<longrightarrow> validateBlock x data prevHash tgt = validateBlock x data' prevHash tgt')
   \<and> (Unmarshal x data = Some block \<and> (\<forall>tx \<in> set (Transactions block). ID tx \<noteq> [])
        \<longrightarrow> validateBlock x data ''-1'' target
          \<and> votes (receiveBlock x data st) (getBlockHash x data)
              = votes st (getBlockHash x data) + 1)"
  by (auto simp: validateBlock_def receiveBlock_def validTransactions_iff votes_def Let_def
           split: option.splits)

theorem validateBlock_iff_witness:
  "Unmarshal demo_ext (Marshal block_no_tx) = Some block_no_tx
   \<and> Transactions block_no_tx = [] \<and> Hash block_no_tx = ''not-a-digest''
   \<and> validateBlock demo_ext (Marshal block_no_tx) ''-1'' target
   \<and> votes (receiveBlock demo_ext (Marshal block_no_tx) demo_node) (getBlockHash demo_ext (Marshal block_no_tx)) = 1
   \<and> Unmarshal demo_ext (Marshal demo_block) = Some demo_block
   \<and> Unmarshal demo_ext (Marshal block_empty_id) = Some (demo_block\<lparr>Transactions := [tx_A, \<lparr>ID = [], Data = ''result-B''\<rparr>, tx_C]\<rparr>)
   \<and> validateBlock demo_ext (Marshal demo_block) ''-1'' 0
   \<and> \<not> validateBlock demo_ext (Marshal block_empty_id) ''-1'' 0"
proof -
  have a: "Unmarshal demo_ext (Marshal block_no_tx) = Some block_no_tx"
    "Unmarshal demo_ext (Marshal demo_block) = Some demo_block"
    "Unmarshal demo_ext (Marshal block_empty_id) = Some block_empty_id"
    by (rule demo_decode)+
  have b: "Transactions block_no_tx = []" "Hash block_no_tx = ''not-a-digest''"
    by (simp_all add: block_no_tx_def)
  have c: "votes demo_node h = 0" for h
    by (simp add: votes_def demo_node_def)
  have d: "\<forall>tx \<in> set (Transactions demo_block). ID tx \<noteq> []"
    "\<exists>tx \<in> set (Transactions block_empty_id). ID tx = []"
    by (simp_all add: demo_block_def block_empty_id_def tx_A_def tx_B_def tx_C_def)
  from validateBlock_iff [of demo_ext "Marshal block_no_tx" "''-1''" target block_no_tx _ _ _ _ demo_node]
    validateBlock_iff [of demo_ext "Marshal demo_block" "''-1''" 0]
    validateBlock_iff [of demo_ext "Marshal block_empty_id" "''-1''" 0]
    a b c d
  show ?thesis by (auto simp: block_empty_id_def)
qed

end
